theory Spec2Isabelle
  imports Main "HOL-Library.Word"
begin

section \<open>The command-line front end of VROOM (src/main.cpp)\<close>

text \<open>
  The development embeds \<^verbatim>\<open>main\<close> of \<^verbatim>\<open>src/main.cpp\<close>: the option scan with
  \<^verbatim>\<open>getopt\<close>, the numeric conversion with \<^verbatim>\<open>std::stoul\<close>, the choice of the input
  and the calls of the parse, solve and output collaborators.

  Data model: LP64, as on the 64-bit POSIX systems the program is built for.
  \<^verbatim>\<open>unsigned long\<close>, the result type of \<^verbatim>\<open>std::stoul\<close>, is a 64-bit word and
  \<^verbatim>\<open>unsigned\<close>, the type of the numeric fields of \<^verbatim>\<open>cl_args_t\<close>, is a 32-bit word.
  A \<^verbatim>\<open>std::string\<close> is a \<^typ>\<open>string\<close>.
\<close>

type_synonym ulong = "64 word"
type_synonym unsigned = "32 word"

subsection \<open>\<^verbatim>\<open>std::stoul\<close> and \<^verbatim>\<open>std::to_string\<close>\<close>

text \<open>
  \<^verbatim>\<open>std::stoul(str)\<close> calls \<^verbatim>\<open>strtoul(str.c_str(), &end, 10)\<close>: white space is
  skipped, one sign is accepted, the longest run of decimal digits is converted and the
  rest of the text is left unread. It throws \<^verbatim>\<open>std::invalid_argument\<close> when no
  digit was converted and \<^verbatim>\<open>std::out_of_range\<close> when \<^verbatim>\<open>strtoul\<close> reports
  \<^verbatim>\<open>ERANGE\<close>, that is when the digits denote more than \<^verbatim>\<open>ULONG_MAX\<close>. After a
  minus sign the value is negated in the return type (ISO C 7.22.1.4).
\<close>

definition isspace :: "char \<Rightarrow> bool" where
  "isspace c \<longleftrightarrow> c = CHR '' '' \<or> c = CHR 0x09 \<or> c = CHR 0x0A \<or> c = CHR 0x0B
     \<or> c = CHR 0x0C \<or> c = CHR 0x0D"

definition isdigit :: "char \<Rightarrow> bool" where
  "isdigit c \<longleftrightarrow> (48::nat) \<le> of_char c \<and> of_char c \<le> (57::nat)"

definition digit_val :: "char \<Rightarrow> nat" where
  "digit_val c = of_char c - 48"

text \<open>The number a run of decimal digits denotes, most significant digit first.\<close>

definition digits_val :: "string \<Rightarrow> nat" where
  "digits_val ds = foldl (\<lambda>n c. 10 * n + digit_val c) 0 ds"

datatype stoul_error = invalid_argument | out_of_range

text \<open>The sign of the subject sequence: whether it is negative, and the text after it.\<close>

fun strip_sign :: "string \<Rightarrow> bool \<times> string" where
  "strip_sign [] = (False, [])"
| "strip_sign (c # cs) =
     (if c = CHR ''-'' then (True, cs)
      else if c = CHR ''+'' then (False, cs)
      else (False, c # cs))"

definition ULONG_MAX :: nat where
  "ULONG_MAX = 2 ^ 64 - 1"

definition stoul :: "string \<Rightarrow> stoul_error + ulong" where
  "stoul str =
     (let (neg, body) = strip_sign (dropWhile isspace str);
          ds = takeWhile isdigit body
      in if ds = [] then Inl invalid_argument
         else if ULONG_MAX < digits_val ds then Inl out_of_range
         else Inr (if neg then - (of_nat (digits_val ds)) else of_nat (digits_val ds)))"

text \<open>\<^verbatim>\<open>std::to_string\<close> of an unsigned value: its decimal digits, no sign, no padding.\<close>

definition digit_char :: "nat \<Rightarrow> char" where
  "digit_char d = char_of (48 + d)"

fun decimal :: "nat \<Rightarrow> string" where
  "decimal n = (if n < 10 then [digit_char n] else decimal (n div 10) @ [digit_char (n mod 10)])"

declare decimal.simps [simp del]

definition to_string :: "unsigned \<Rightarrow> string" where
  "to_string w = decimal (unat w)"

subsection \<open>The configuration record\<close>

datatype severity_level = trace | debug | info | warning | error | fatal

text \<open>
  Modelled from the spec: \<^verbatim>\<open>cl_args_t\<close> is declared in
  \<^verbatim>\<open>structures/cl_args.h\<close>, which is not part of the sources at hand. The fields are
  the ones \<^verbatim>\<open>main\<close> reads and writes; their types and defaults follow the data model
  of the specification (the two numeric fields and the ceiling are \<^verbatim>\<open>unsigned\<close>).
\<close>

record cl_args_t =
  osrm_address :: string
  geometry :: bool
  input_file :: string
  use_libosrm :: bool
  osrm_profile :: string
  output_file :: string
  osrm_port :: string
  nb_threads :: unsigned
  log_level :: severity_level
  input :: string
  exploration_level :: unsigned
  max_exploration_level :: unsigned

text \<open>
  Modelled from the spec: the default constructor of \<^verbatim>\<open>cl_args_t\<close>. The specification
  leaves the default routing profile and the default severity open, so both are
  parameters.
\<close>

definition cl_args_init :: "string \<Rightarrow> severity_level \<Rightarrow> cl_args_t" where
  "cl_args_init profile level =
     \<lparr>osrm_address = ''0.0.0.0'', geometry = False, input_file = [], use_libosrm = False,
      osrm_profile = profile, output_file = [], osrm_port = ''5000'', nb_threads = 4,
      log_level = level, input = [], exploration_level = 1, max_exploration_level = 5\<rparr>"

subsection \<open>\<^verbatim>\<open>getopt\<close>\<close>

text \<open>
  \<^verbatim>\<open>getopt\<close> of the GNU C library, for an option string that starts with none of
  \<^verbatim>\<open>+\<close>, \<^verbatim>\<open>-\<close> and \<^verbatim>\<open>:\<close>, and with \<^verbatim>\<open>opterr\<close> left at 1. The library scans in one
  of two orders. \<open>PERMUTE\<close> is the default: elements of \<^verbatim>\<open>argv\<close> that are not options
  are passed over and moved behind the options, so that options are reported wherever
  they stand. \<open>REQUIRE_ORDER\<close> is what POSIX specifies and what the library does when
  the environment variable \<^verbatim>\<open>POSIXLY_CORRECT\<close> is set: the scan stops at the first
  element that is not an option.
\<close>

datatype ordering = REQUIRE_ORDER | PERMUTE

text \<open>
  The state holds the unread characters of the option cluster being scanned
  (\<open>nextchar\<close>), the elements of \<^verbatim>\<open>argv\<close> not yet looked at (\<open>pending\<close>) and the
  elements passed over (\<open>skipped\<close>). When \<^verbatim>\<open>getopt\<close> returns \<^verbatim>\<open>-1\<close>, the elements
  \<^verbatim>\<open>argv[optind]\<close>, ..., \<^verbatim>\<open>argv[argc - 1]\<close> are the skipped ones followed by the
  pending ones.
\<close>

record getopt_state =
  nextchar :: string
  pending :: "string list"
  skipped :: "string list"

text \<open>
  \<open>opt_lookup\<close> finds the option character in the option string, as \<^verbatim>\<open>strchr\<close>
  does, and tells whether a colon follows it; a colon itself is never an option.
\<close>

fun opt_lookup :: "string \<Rightarrow> char \<Rightarrow> bool option" where
  "opt_lookup [] c = None"
| "opt_lookup (x # xs) c =
     (if c = CHR '':'' then None
      else if x = c then Some (case xs of [] \<Rightarrow> False | y # _ \<Rightarrow> y = CHR '':'')
      else opt_lookup xs c)"

text \<open>An element of \<^verbatim>\<open>argv\<close> is an option element when it starts with \<^verbatim>\<open>-\<close> and is longer.\<close>

fun is_option :: "string \<Rightarrow> bool" where
  "is_option (d # c # cs) = (d = CHR ''-'')"
| "is_option a = False"

definition SQ :: string where "SQ = [CHR 0x27]"

text \<open>
  One option character \<open>c\<close> of a cluster, with the rest \<open>cs\<close> of the cluster. The
  result is what \<^verbatim>\<open>getopt\<close> returns (the option character with \<^verbatim>\<open>optarg\<close>, which is
  empty when the option takes no argument), the lines it writes on standard error, and
  the new state. For a character that is not in the option string, and for an option
  whose argument is missing, it writes a line that starts with \<^verbatim>\<open>argv[0]\<close> and returns
  \<^verbatim>\<open>?\<close>.
\<close>

definition getopt_char ::
  "string \<Rightarrow> string \<Rightarrow> char \<Rightarrow> string \<Rightarrow> string list \<Rightarrow> string list
     \<Rightarrow> (char \<times> string) option \<times> string list \<times> getopt_state" where
  "getopt_char prog optstring c cs rest moved =
     (case opt_lookup optstring c of
        None \<Rightarrow>
          (Some (CHR ''?'', []), [prog @ '': invalid option -- '' @ SQ @ [c] @ SQ],
           \<lparr>nextchar = cs, pending = rest, skipped = moved\<rparr>)
      | Some False \<Rightarrow> (Some (c, []), [], \<lparr>nextchar = cs, pending = rest, skipped = moved\<rparr>)
      | Some True \<Rightarrow>
          (if cs \<noteq> [] then (Some (c, cs), [], \<lparr>nextchar = [], pending = rest, skipped = moved\<rparr>)
           else (case rest of
                   [] \<Rightarrow>
                     (Some (CHR ''?'', []),
                      [prog @ '': option requires an argument -- '' @ SQ @ [c] @ SQ],
                      \<lparr>nextchar = [], pending = [], skipped = moved\<rparr>)
                 | a # as \<Rightarrow> (Some (c, a), [], \<lparr>nextchar = [], pending = as, skipped = moved\<rparr>))))"

text \<open>
  One call of \<^verbatim>\<open>getopt\<close>. Inside a cluster it goes on with the next character. At
  the start of an element it first passes over the elements that are not options (in
  the order \<open>PERMUTE\<close> only); then \<^verbatim>\<open>--\<close> ends the scan and is consumed, an option
  element is entered, and anything else (or the end of \<^verbatim>\<open>argv\<close>) ends the scan.
\<close>

definition getopt ::
  "ordering \<Rightarrow> string \<Rightarrow> string \<Rightarrow> getopt_state
     \<Rightarrow> (char \<times> string) option \<times> string list \<times> getopt_state" where
  "getopt ord prog optstring gs =
     (case nextchar gs of
        c # cs \<Rightarrow> getopt_char prog optstring c cs (pending gs) (skipped gs)
      | [] \<Rightarrow>
          (let passed = (if ord = PERMUTE
                         then takeWhile (\<lambda>a. \<not> is_option a) (pending gs) else []);
               left = (if ord = PERMUTE
                       then dropWhile (\<lambda>a. \<not> is_option a) (pending gs) else pending gs);
               moved = skipped gs @ passed
           in case left of
                [] \<Rightarrow> (None, [], \<lparr>nextchar = [], pending = [], skipped = moved\<rparr>)
              | a # as \<Rightarrow>
                  if a = ''--'' then (None, [], \<lparr>nextchar = [], pending = as, skipped = moved\<rparr>)
                  else (case a of
                          [] \<Rightarrow> (None, [], \<lparr>nextchar = [], pending = left, skipped = moved\<rparr>)
                        | d # r \<Rightarrow>
                            (if d = CHR ''-'' then
                               (case r of
                                  [] \<Rightarrow> (None, [], \<lparr>nextchar = [], pending = left, skipped = moved\<rparr>)
                                | c # cs \<Rightarrow> getopt_char prog optstring c cs as moved)
                             else (None, [], \<lparr>nextchar = [], pending = left, skipped = moved\<rparr>)))))"

definition optString :: string where
  "optString = ''a:gi:lm:o:p:t:vVx:h?''"

subsection \<open>The option loop of \<^verbatim>\<open>main\<close>\<close>

text \<open>
  One pass through the \<^verbatim>\<open>switch\<close>. The locals are the configuration record and the
  two texts \<^verbatim>\<open>nb_threads_arg\<close> and \<^verbatim>\<open>exploration_level_arg\<close>. The result is
  \<open>None\<close> when \<^verbatim>\<open>display_usage\<close> is called, which leaves the process.
\<close>

definition switch_opt ::
  "char \<Rightarrow> string \<Rightarrow> cl_args_t \<times> string \<times> string \<Rightarrow> (cl_args_t \<times> string \<times> string) option" where
  "switch_opt opt optarg s =
     (case s of (cl_args, nb_threads_arg, exploration_level_arg) \<Rightarrow>
        if opt = CHR ''a'' then Some (cl_args\<lparr>osrm_address := optarg\<rparr>, nb_threads_arg, exploration_level_arg)
        else if opt = CHR ''g'' then Some (cl_args\<lparr>geometry := True\<rparr>, nb_threads_arg, exploration_level_arg)
        else if opt = CHR ''h'' then None
        else if opt = CHR ''i'' then Some (cl_args\<lparr>input_file := optarg\<rparr>, nb_threads_arg, exploration_level_arg)
        else if opt = CHR ''l'' then Some (cl_args\<lparr>use_libosrm := True\<rparr>, nb_threads_arg, exploration_level_arg)
        else if opt = CHR ''m'' then Some (cl_args\<lparr>osrm_profile := optarg\<rparr>, nb_threads_arg, exploration_level_arg)
        else if opt = CHR ''o'' then Some (cl_args\<lparr>output_file := optarg\<rparr>, nb_threads_arg, exploration_level_arg)
        else if opt = CHR ''p'' then Some (cl_args\<lparr>osrm_port := optarg\<rparr>, nb_threads_arg, exploration_level_arg)
        else if opt = CHR ''t'' then Some (cl_args, optarg, exploration_level_arg)
        else if opt = CHR ''v'' then Some (cl_args\<lparr>log_level := info\<rparr>, nb_threads_arg, exploration_level_arg)
        else if opt = CHR ''V'' then Some (cl_args\<lparr>log_level := trace\<rparr>, nb_threads_arg, exploration_level_arg)
        else if opt = CHR ''x'' then Some (cl_args, nb_threads_arg, optarg)
        else Some s)"

text \<open>
  The size of what \<^verbatim>\<open>getopt\<close> has left to read: every call that returns an option
  makes it smaller, so the loop ends.
\<close>

definition unread :: "getopt_state \<Rightarrow> nat" where
  "unread gs = length (nextchar gs) + sum_list (map (\<lambda>a. Suc (length a)) (pending gs))"

datatype scan_result = Usage_exit | Scanned cl_args_t string string "string list"

text \<open>
  The \<^verbatim>\<open>while (opt != -1)\<close> loop. It ends with the locals and the elements of
  \<^verbatim>\<open>argv\<close> from \<^verbatim>\<open>optind\<close> on, or in \<^verbatim>\<open>display_usage\<close>. The result also holds the
  lines \<^verbatim>\<open>getopt\<close> has written on standard error on the way.
\<close>

function main_loop ::
  "ordering \<Rightarrow> string \<Rightarrow> cl_args_t \<times> string \<times> string \<Rightarrow> getopt_state
     \<Rightarrow> string list \<times> scan_result" where
  "main_loop ord prog s gs =
     (case getopt ord prog optString gs of
        (None, lines, gs') \<Rightarrow>
          (case s of (cl_args, t, x) \<Rightarrow>
             (lines, Scanned cl_args t x (skipped gs' @ pending gs')))
      | (Some (opt, optarg), lines, gs') \<Rightarrow>
          (case switch_opt opt optarg s of
             None \<Rightarrow> (lines, Usage_exit)
           | Some s' \<Rightarrow>
               (case main_loop ord prog s' gs' of (further, r) \<Rightarrow> (lines @ further, r))))"
  by pat_completeness auto
termination
proof -
  have drop: "sum_list (map f (dropWhile P xs)) \<le> sum_list (map f xs)"
    for f :: "string \<Rightarrow> nat" and P xs
    by (induction xs) auto
  have char: "unread gs' \<le> length cs + sum_list (map (\<lambda>a. Suc (length a)) rest)"
    if "getopt_char prog os c cs rest moved = (Some e, lines, gs')"
    for prog os c cs rest moved e lines gs'
    using that
    by (auto simp: getopt_char_def unread_def split: option.splits bool.splits if_splits list.splits)
  have less: "unread gs' < unread gs"
    if "getopt ord prog os gs = (Some e, lines, gs')" for ord prog os gs e lines gs'
  proof (cases "nextchar gs")
    case (Cons c cs)
    with that char [of prog os c cs "pending gs" "skipped gs" e lines gs'] show ?thesis
      by (simp add: getopt_def unread_def)
  next
    case Nil
    let ?f = "\<lambda>a. Suc (length a)"
    let ?left = "if ord = PERMUTE then dropWhile (\<lambda>a. \<not> is_option a) (pending gs) else pending gs"
    have le: "sum_list (map ?f ?left) \<le> sum_list (map ?f (pending gs))"
      using drop [of ?f "\<lambda>a. \<not> is_option a" "pending gs"] by simp
    from that Nil obtain c cs as moved where left: "?left = (CHR ''-'' # c # cs) # as"
      and g: "getopt_char prog os c cs as moved = (Some e, lines, gs')"
      by (auto simp: getopt_def Let_def split: list.splits if_splits)
    from char [OF g] have "unread gs' < sum_list (map ?f ?left)"
      unfolding left by simp
    with le Nil show ?thesis
      by (simp add: unread_def)
  qed
  show ?thesis
    by (relation "measure (\<lambda>(ord, prog, s, gs). unread gs)") (auto dest: less [OF sym])
qed

declare main_loop.simps [simp del]

text \<open>
  The options \<^verbatim>\<open>getopt\<close> reports one after the other until it returns \<^verbatim>\<open>-1\<close>, each
  with the lines written on standard error in that call, and the elements of \<^verbatim>\<open>argv\<close>
  it leaves from \<^verbatim>\<open>optind\<close> on. They describe an argument vector in the terms the loop
  sees it: which flags occur, in which order and with which value.
\<close>

function getopt_all ::
  "ordering \<Rightarrow> string \<Rightarrow> string \<Rightarrow> getopt_state
     \<Rightarrow> ((char \<times> string) \<times> string list) list \<times> string list" where
  "getopt_all ord prog optstring gs =
     (case getopt ord prog optstring gs of
        (None, lines, gs') \<Rightarrow> ([], skipped gs' @ pending gs')
      | (Some e, lines, gs') \<Rightarrow>
          (case getopt_all ord prog optstring gs' of (es, rest) \<Rightarrow> ((e, lines) # es, rest)))"
  by pat_completeness auto
termination
proof -
  have drop: "sum_list (map f (dropWhile P xs)) \<le> sum_list (map f xs)"
    for f :: "string \<Rightarrow> nat" and P xs
    by (induction xs) auto
  have char: "unread gs' \<le> length cs + sum_list (map (\<lambda>a. Suc (length a)) rest)"
    if "getopt_char prog os c cs rest moved = (Some e, lines, gs')"
    for prog os c cs rest moved e lines gs'
    using that
    by (auto simp: getopt_char_def unread_def split: option.splits bool.splits if_splits list.splits)
  have less: "unread gs' < unread gs"
    if "getopt ord prog os gs = (Some e, lines, gs')" for ord prog os gs e lines gs'
  proof (cases "nextchar gs")
    case (Cons c cs)
    with that char [of prog os c cs "pending gs" "skipped gs" e lines gs'] show ?thesis
      by (simp add: getopt_def unread_def)
  next
    case Nil
    let ?f = "\<lambda>a. Suc (length a)"
    let ?left = "if ord = PERMUTE then dropWhile (\<lambda>a. \<not> is_option a) (pending gs) else pending gs"
    have le: "sum_list (map ?f ?left) \<le> sum_list (map ?f (pending gs))"
      using drop [of ?f "\<lambda>a. \<not> is_option a" "pending gs"] by simp
    from that Nil obtain c cs as moved where left: "?left = (CHR ''-'' # c # cs) # as"
      and g: "getopt_char prog os c cs as moved = (Some e, lines, gs')"
      by (auto simp: getopt_def Let_def split: list.splits if_splits)
    from char [OF g] have "unread gs' < sum_list (map ?f ?left)"
      unfolding left by simp
    with le Nil show ?thesis
      by (simp add: unread_def)
  qed
  show ?thesis
    by (relation "measure (\<lambda>(ord, prog, os, gs). unread gs)") (auto dest: less [OF sym])
qed

declare getopt_all.simps [simp del]

text \<open>The state of \<^verbatim>\<open>getopt\<close> before its first call: \<^verbatim>\<open>optind\<close> is 1.\<close>

definition getopt_start :: "string list \<Rightarrow> getopt_state" where
  "getopt_start args = \<lparr>nextchar = [], pending = args, skipped = []\<rparr>"

text \<open>
  The lines written on standard error up to the end of the loop, which is the end of
  the scan or the first \<^verbatim>\<open>-h\<close>.
\<close>

fun loop_lines :: "((char \<times> string) \<times> string list) list \<Rightarrow> string list" where
  "loop_lines [] = []"
| "loop_lines (r # rs) = snd r @ (if fst (fst r) = CHR ''h'' then [] else loop_lines rs)"

text \<open>The value of the last occurrence of a flag, or the default when it does not occur.\<close>

definition last_value :: "char \<Rightarrow> string \<Rightarrow> (char \<times> string) list \<Rightarrow> string" where
  "last_value c dflt es = foldl (\<lambda>v e. if fst e = c then snd e else v) dflt es"

subsection \<open>Numeric validation\<close>

text \<open>
  The first \<^verbatim>\<open>try\<close> block of \<^verbatim>\<open>main\<close>: both texts are converted, the results are
  stored in the \<^verbatim>\<open>unsigned\<close> fields (which keeps the low 32 bits), and the
  exploration level is cut to the ceiling. An exception of \<^verbatim>\<open>std::stoul\<close> leaves
  the block.
\<close>

definition validate :: "cl_args_t \<Rightarrow> string \<Rightarrow> string \<Rightarrow> stoul_error + cl_args_t" where
  "validate cl_args nb_threads_arg exploration_level_arg =
     (case stoul nb_threads_arg of
        Inl e \<Rightarrow> Inl e
      | Inr n \<Rightarrow>
          (case stoul exploration_level_arg of
             Inl e \<Rightarrow> Inl e
           | Inr m \<Rightarrow>
               (let c1 = cl_args\<lparr>nb_threads := ucast n\<rparr>;
                    c2 = c1\<lparr>exploration_level := ucast m\<rparr>
                in Inr (c2\<lparr>exploration_level :=
                          min (exploration_level c2) (max_exploration_level c2)\<rparr>))))"

subsection \<open>The collaborators and what the process does\<close>

text \<open>
  What \<^verbatim>\<open>parse\<close> and \<^verbatim>\<open>solve\<close> may throw: a \<^verbatim>\<open>custom_exception\<close> with its
  message, or another \<^verbatim>\<open>std::exception\<close> with the text of \<^verbatim>\<open>what()\<close>.
\<close>

datatype exn = custom_exception string | std_exception string

text \<open>
  The environment of a run. \<open>POSIXLY_CORRECT\<close> tells whether the environment variable
  of that name is set, and \<open>argv0\<close> is \<^verbatim>\<open>argv[0]\<close>, the name the program is called
  by. \<open>LIBOSRM\<close> is the macro of the same name, which decides
  whether the second handler is compiled. \<open>version\<close> is the result of
  \<^verbatim>\<open>get_version()\<close>. \<open>file_text\<close> gives the contents of the files that can be opened for
  reading. \<open>parse\<close> and \<open>solve\<close> are the two collaborators, with a problem type \<open>'p\<close>
  and a solution type \<open>'s\<close>; each returns a value or throws.
\<close>

record ('p, 's) env =
  POSIXLY_CORRECT :: bool
  argv0 :: string
  LIBOSRM :: bool
  version :: string
  default_profile :: string
  default_level :: severity_level
  file_text :: "string \<Rightarrow> string option"
  parse :: "cl_args_t \<Rightarrow> exn + 'p"
  solve :: "'p \<Rightarrow> unsigned \<Rightarrow> unsigned \<Rightarrow> exn + 's"

text \<open>
  The two things \<^verbatim>\<open>write_to_json\<close> is given: a solution, or an error with its code and
  message.
\<close>

definition getopt_ordering :: "('p, 's) env \<Rightarrow> ordering" where
  "getopt_ordering env = (if POSIXLY_CORRECT env then REQUIRE_ORDER else PERMUTE)"

datatype 's document = Solution 's | Error int string

text \<open>
  What a run does, in order: text on standard output, a line on standard error, a call
  of \<^verbatim>\<open>write_to_json\<close> with the document, the geometry toggle and the output file,
  the opening of the input file, the filter set on the logging core, and the calls of
  the collaborators with their arguments.
\<close>

datatype ('p, 's) action =
    Stdout string
  | Stderr string
  | Write_to_json "'s document" bool string
  | Read_file string
  | Set_filter severity_level
  | Parse cl_args_t
  | Solve 'p unsigned unsigned

text \<open>
  How the process ends: with an exit code (from \<^verbatim>\<open>exit\<close> or from the \<^verbatim>\<open>return\<close>
  of \<^verbatim>\<open>main\<close>), or in \<^verbatim>\<open>std::terminate\<close> when an exception leaves \<^verbatim>\<open>main\<close>.
\<close>

datatype status = Exit int | Uncaught exn

definition NL :: string where "NL = [CHR 0x0A]"
definition TAB :: string where "TAB = [CHR 0x09]"
definition DQ :: string where "DQ = [CHR 0x22]"

definition usage :: "string \<Rightarrow> string" where
  "usage ver =
     ''VROOM Copyright (C) 2015-2018, Julien Coupey'' @ NL
     @ ''Version: '' @ ver @ NL
     @ ''Usage:'' @ NL @ TAB @ ''vroom [OPTION]... '' @ DQ @ ''INPUT'' @ DQ
     @ NL @ TAB @ ''vroom [OPTION]... -i FILE'' @ NL
     @ ''Options:'' @ NL
     @ TAB @ ''-a ADDRESS (='' @ DQ @ ''0.0.0.0'' @ DQ @ '')'' @ TAB @ '' OSRM server address'' @ NL
     @ TAB @ ''-p PORT (=5000),'' @ TAB @ '' OSRM listening port'' @ NL
     @ TAB @ ''-g,'' @ TAB @ TAB @ TAB @ '' add detailed route geometry and indicators'' @ NL
     @ TAB @ ''-i FILE,'' @ TAB @ TAB @ '' read input from FILE rather than from stdin'' @ NL
     @ TAB @ ''-l,'' @ TAB @ TAB @ TAB @ '' use libosrm rather than osrm-routed'' @ NL
     @ TAB @ ''-o OUTPUT,'' @ TAB @ TAB @ '' output file name'' @ NL
     @ TAB @ ''-t THREADS (=4),'' @ TAB @ '' number of threads to use'' @ NL
     @ TAB @ ''-v,'' @ TAB @ TAB @ '' turn on verbose output'' @ NL
     @ TAB @ ''-V,'' @ TAB @ TAB @ '' turn on verbose output with all details'' @ NL
     @ TAB @ ''-x EXPLORE (=1),'' @ TAB @ '' exploration level to use (0..5)''"

text \<open>\<^verbatim>\<open>display_usage\<close>: the usage text and a line end on standard output, then \<^verbatim>\<open>exit(0)\<close>.\<close>

definition display_usage :: "('p, 's) env \<Rightarrow> ('p, 's) action list \<times> status" where
  "display_usage env = ([Stdout (usage (version env) @ NL)], Exit 0)"

text \<open>
  The choice of the input, lines 130 to 143: without an input file the first element
  of \<^verbatim>\<open>argv\<close> after the options, or \<^verbatim>\<open>display_usage\<close> when there is none (the
  result \<open>None\<close>); with an input file whatever can be read from it, which is nothing
  when the file cannot be opened.
\<close>

definition acquire_input ::
  "('p, 's) env \<Rightarrow> cl_args_t \<Rightarrow> string list \<Rightarrow> (('p, 's) action list \<times> cl_args_t) option" where
  "acquire_input env cl_args rest =
     (if input_file cl_args = [] then
        (case rest of
           [] \<Rightarrow> None
         | a # _ \<Rightarrow> Some ([], cl_args\<lparr>input := a\<rparr>))
      else
        Some ([Read_file (input_file cl_args)],
              cl_args\<lparr>input := (case file_text env (input_file cl_args) of
                                   None \<Rightarrow> []
                                 | Some text \<Rightarrow> text)\<rparr>))"

text \<open>
  The handlers of the second \<^verbatim>\<open>try\<close> block. A \<^verbatim>\<open>custom_exception\<close> is always
  caught; another exception only where the handler under \<^verbatim>\<open>#if LIBOSRM\<close> is
  compiled, and otherwise it leaves \<^verbatim>\<open>main\<close>.
\<close>

definition error_exit ::
  "cl_args_t \<Rightarrow> string \<Rightarrow> ('p, 's) action list \<times> status" where
  "error_exit cl_args message =
     ([Stderr (''[Error] '' @ message),
       Write_to_json (Error 1 message) False (output_file cl_args)], Exit 1)"

definition catch :: "('p, 's) env \<Rightarrow> cl_args_t \<Rightarrow> exn \<Rightarrow> ('p, 's) action list \<times> status" where
  "catch env cl_args e =
     (case e of
        custom_exception message \<Rightarrow> error_exit cl_args message
      | std_exception what \<Rightarrow>
          (if LIBOSRM env then error_exit cl_args what else ([], Uncaught e)))"

text \<open>The second \<^verbatim>\<open>try\<close> block with its handlers, and the final \<^verbatim>\<open>return 0\<close>.\<close>

definition build_and_solve ::
  "('p, 's) env \<Rightarrow> cl_args_t \<Rightarrow> ('p, 's) action list \<times> status" where
  "build_and_solve env cl_args =
     (case parse env cl_args of
        Inl e \<Rightarrow> (case catch env cl_args e of (acts, st) \<Rightarrow> (Parse cl_args # acts, st))
      | Inr problem_instance \<Rightarrow>
          (case solve env problem_instance (exploration_level cl_args) (nb_threads cl_args) of
             Inl e \<Rightarrow>
               (case catch env cl_args e of (acts, st) \<Rightarrow>
                  (Parse cl_args
                   # Solve problem_instance (exploration_level cl_args) (nb_threads cl_args)
                   # acts, st))
           | Inr sol \<Rightarrow>
               ([Parse cl_args,
                 Solve problem_instance (exploration_level cl_args) (nb_threads cl_args),
                 Write_to_json (Solution sol) (geometry cl_args) (output_file cl_args)],
                Exit 0)))"

text \<open>
  \<^verbatim>\<open>main\<close>. The argument is \<^verbatim>\<open>argv[1]\<close>, ..., \<^verbatim>\<open>argv[argc - 1]\<close>. What the run
  does starts with the lines \<^verbatim>\<open>getopt\<close> writes on standard error during the loop.
\<close>

definition main :: "('p, 's) env \<Rightarrow> string list \<Rightarrow> ('p, 's) action list \<times> status" where
  "main env args =
     (let cl_args = cl_args_init (default_profile env) (default_level env);
          nb_threads_arg = to_string (nb_threads cl_args);
          exploration_level_arg = to_string (exploration_level cl_args)
      in case main_loop (getopt_ordering env) (argv0 env)
                (cl_args, nb_threads_arg, exploration_level_arg) (getopt_start args) of
           (lines, r) \<Rightarrow>
             (case (case r of
                      Usage_exit \<Rightarrow> display_usage env
                    | Scanned cl_args t x rest \<Rightarrow>
                        (case validate cl_args t x of
                           Inl e \<Rightarrow> error_exit cl_args ''Wrong numerical value.''
                         | Inr cl_args \<Rightarrow>
                             (case acquire_input env cl_args rest of
                                None \<Rightarrow> display_usage env
                              | Some (acts, cl_args) \<Rightarrow>
                                  (case build_and_solve env cl_args of (acts', st) \<Rightarrow>
                                     (acts @ Set_filter (log_level cl_args) # acts', st))))) of
                (acts, st) \<Rightarrow> (map Stderr lines @ acts, st)))"

subsection \<open>Notions used to state the properties\<close>

text \<open>
  What \<^verbatim>\<open>getopt\<close> makes of the arguments of a run: the flags it reports, in order
  and with their values; the elements it leaves from \<^verbatim>\<open>optind\<close> on; and the lines
  it writes on standard error until the loop ends.
\<close>

definition getopt_report ::
  "('p, 's) env \<Rightarrow> string list \<Rightarrow> ((char \<times> string) \<times> string list) list \<times> string list" where
  "getopt_report env args =
     getopt_all (getopt_ordering env) (argv0 env) optString (getopt_start args)"

definition flags :: "('p, 's) env \<Rightarrow> string list \<Rightarrow> (char \<times> string) list" where
  "flags env args = map fst (fst (getopt_report env args))"

definition positional :: "('p, 's) env \<Rightarrow> string list \<Rightarrow> string list" where
  "positional env args = snd (getopt_report env args)"

definition getopt_lines :: "('p, 's) env \<Rightarrow> string list \<Rightarrow> string list" where
  "getopt_lines env args = loop_lines (fst (getopt_report env args))"

text \<open>
  The documents a run produces: what it writes on standard output and what it hands to
  \<^verbatim>\<open>write_to_json\<close>. Lines on standard error, reads and calls are not documents.
\<close>

fun is_document :: "('p, 's) action \<Rightarrow> bool" where
  "is_document (Stdout text) = True"
| "is_document (Write_to_json d g out) = True"
| "is_document a = False"

definition documents :: "('p, 's) action list \<Rightarrow> ('p, 's) action list" where
  "documents acts = filter is_document acts"

text \<open>
  The \<^verbatim>\<open>switch\<close> applied to a sequence of reported options: the locals after the
  last one, or \<open>None\<close> when one of them leads to \<^verbatim>\<open>display_usage\<close>.
\<close>

fun scan ::
  "cl_args_t \<times> string \<times> string \<Rightarrow> (char \<times> string) list \<Rightarrow> (cl_args_t \<times> string \<times> string) option" where
  "scan s [] = Some s"
| "scan s (e # es) =
     (case switch_opt (fst e) (snd e) s of
        None \<Rightarrow> None
      | Some s' \<Rightarrow> scan s' es)"

text \<open>The flags that occur in a sequence of reported options.\<close>

definition occurs :: "char \<Rightarrow> (char \<times> string) list \<Rightarrow> bool" where
  "occurs c es \<longleftrightarrow> c \<in> fst ` set es"

text \<open>The severity after a sequence of reported options: \<^verbatim>\<open>-v\<close> and \<^verbatim>\<open>-V\<close> overwrite it.\<close>

definition level_after :: "severity_level \<Rightarrow> (char \<times> string) list \<Rightarrow> severity_level" where
  "level_after dflt es =
     foldl (\<lambda>l e. if fst e = CHR ''v'' then info else if fst e = CHR ''V'' then trace else l) dflt es"

text \<open>
  The reading of "a valid unsigned integer" in the specification: a non-empty text of
  decimal digits whose value fits the \<^verbatim>\<open>unsigned\<close> field.
\<close>

definition spec_valid_unsigned :: "string \<Rightarrow> bool" where
  "spec_valid_unsigned str \<longleftrightarrow> str \<noteq> [] \<and> list_all isdigit str \<and> digits_val str < 2 ^ 32"

text \<open>
  The texts \<^verbatim>\<open>std::stoul\<close> converts, described by their shape: white space, at most
  one sign, a non-empty run of digits that ends where the text ends or a character that
  is not a digit follows, and a value of at most \<^verbatim>\<open>ULONG_MAX\<close>.
\<close>

definition convertible :: "string \<Rightarrow> bool" where
  "convertible str \<longleftrightarrow>
     (\<exists>ws sg ds rest. str = ws @ sg @ ds @ rest \<and> list_all isspace ws
        \<and> (sg = [] \<or> sg = ''+'' \<or> sg = ''-'')
        \<and> ds \<noteq> [] \<and> list_all isdigit ds \<and> \<not> (\<exists>c r. rest = c # r \<and> isdigit c)
        \<and> digits_val ds \<le> ULONG_MAX)"

text \<open>
  An environment for concrete runs. The input file \<^verbatim>\<open>in.json\<close> holds \<^verbatim>\<open>{}\<close> and no
  other file can be opened. \<^verbatim>\<open>parse\<close> throws a \<^verbatim>\<open>custom_exception\<close> on the empty
  input and a \<^verbatim>\<open>std::bad_alloc\<close> on the input \<^verbatim>\<open>huge\<close>; every other input is its
  own problem instance, and \<^verbatim>\<open>solve\<close> returns it as the solution. The program is
  called as \<^verbatim>\<open>vroom\<close>, \<^verbatim>\<open>POSIXLY_CORRECT\<close> is not set, and the argument is the
  value of \<^verbatim>\<open>LIBOSRM\<close>.
\<close>

definition sample_env :: "bool \<Rightarrow> (string, string) env" where
  "sample_env libosrm =
     \<lparr>POSIXLY_CORRECT = False, argv0 = ''vroom'',
      LIBOSRM = libosrm, version = ''1.2.0'', default_profile = ''car'', default_level = error,
      file_text = (\<lambda>path. if path = ''in.json'' then Some ''{}'' else None),
      parse = (\<lambda>c. if input c = [] then Inl (custom_exception ''Error while parsing.'')
                    else if input c = ''huge'' then Inl (std_exception ''std::bad_alloc'')
                    else Inr (input c)),
      solve = (\<lambda>p x t. Inr p)\<rparr>"

text \<open>
  The locals at the end of the option loop, started from the defaults of the
  configuration record and the texts of the default thread count and exploration level;
  \<open>None\<close> when the loop ends in \<^verbatim>\<open>display_usage\<close>.
\<close>

definition scanned :: "('p, 's) env \<Rightarrow> string list \<Rightarrow> (cl_args_t \<times> string \<times> string) option" where
  "scanned env args =
     scan (cl_args_init (default_profile env) (default_level env), ''4'', ''1'') (flags env args)"

text \<open>The problem texts handed to \<^verbatim>\<open>parse\<close> in the course of a run.\<close>

fun payload :: "('p, 's) action \<Rightarrow> string list" where
  "payload (Parse c) = [input c]"
| "payload a = []"

definition payloads :: "('p, 's) action list \<Rightarrow> string list" where
  "payloads acts = concat (map payload acts)"

text \<open>What can be read from a file: nothing when it cannot be opened.\<close>

definition contents :: "('p, 's) env \<Rightarrow> string \<Rightarrow> string" where
  "contents env path = (case file_text env path of None \<Rightarrow> [] | Some text \<Rightarrow> text)"

text \<open>
  The configurations handed to \<^verbatim>\<open>parse\<close>, the exploration levels and thread counts
  handed to \<^verbatim>\<open>solve\<close>, and the severities set as filter, in the course of a run.
\<close>

fun parse_call :: "('p, 's) action \<Rightarrow> cl_args_t list" where
  "parse_call (Parse c) = [c]"
| "parse_call a = []"

definition parse_calls :: "('p, 's) action list \<Rightarrow> cl_args_t list" where
  "parse_calls acts = concat (map parse_call acts)"

fun solve_call :: "('p, 's) action \<Rightarrow> (unsigned \<times> unsigned) list" where
  "solve_call (Solve p x t) = [(x, t)]"
| "solve_call a = []"

definition solve_calls :: "('p, 's) action list \<Rightarrow> (unsigned \<times> unsigned) list" where
  "solve_calls acts = concat (map solve_call acts)"

fun filter_set :: "('p, 's) action \<Rightarrow> severity_level list" where
  "filter_set (Set_filter level) = [level]"
| "filter_set a = []"

definition filters :: "('p, 's) action list \<Rightarrow> severity_level list" where
  "filters acts = concat (map filter_set acts)"

text \<open>The output file the flags have set: the value of the last \<^verbatim>\<open>-o\<close>, or none.\<close>

definition destination :: "('p, 's) env \<Rightarrow> string list \<Rightarrow> string" where
  "destination env args = last_value (CHR ''o'') [] (flags env args)"

text \<open>
  A run proceeds to the collaborators when no \<^verbatim>\<open>-h\<close> is reported, the final texts of
  \<^verbatim>\<open>-t\<close> and \<^verbatim>\<open>-x\<close> are both converted, and an input file is named or an element
  of \<^verbatim>\<open>argv\<close> is left after the options.
\<close>

definition proceeds :: "('p, 's) env \<Rightarrow> string list \<Rightarrow> bool" where
  "proceeds env args \<longleftrightarrow>
     \<not> occurs (CHR ''h'') (flags env args)
     \<and> (\<exists>n. stoul (last_value (CHR ''t'') ''4'' (flags env args)) = Inr n)
     \<and> (\<exists>m. stoul (last_value (CHR ''x'') ''1'' (flags env args)) = Inr m)
     \<and> (last_value (CHR ''i'') [] (flags env args) \<noteq> [] \<or> positional env args \<noteq> [])"

text \<open>
  What is expected after an exception of a collaborator: the error document with the
  message of the exception and exit code 1 when it is caught; no document, and the end
  in \<^verbatim>\<open>std::terminate\<close>, when it is not.
\<close>

definition after_exception ::
  "('p, 's) env \<Rightarrow> string list \<Rightarrow> exn \<Rightarrow> ('p, 's) action list \<times> status" where
  "after_exception env args e =
     (case e of
        custom_exception message \<Rightarrow>
          ([Write_to_json (Error 1 message) False (destination env args)], Exit 1)
      | std_exception what \<Rightarrow>
          (if LIBOSRM env
           then ([Write_to_json (Error 1 what) False (destination env args)], Exit 1)
           else ([], Uncaught e)))"

section \<open>Properties\<close>

subsection \<open>The loop as a scan of the reported options\<close>

lemma to_string_4: "to_string 4 = ''4''"
  by (simp add: to_string_def decimal.simps digit_char_def char_of_eq_iff)

lemma to_string_1: "to_string 1 = ''1''"
  by (simp add: to_string_def decimal.simps digit_char_def char_of_eq_iff)

text \<open>A call of \<^verbatim>\<open>getopt\<close> that returns \<^verbatim>\<open>-1\<close> writes nothing.\<close>

lemma getopt_char_not_None:
  "getopt_char prog optstring c cs rest moved = (None, lines, gs') \<Longrightarrow> False"
  by (simp add: getopt_char_def split: option.splits bool.splits list.splits if_splits)

lemma getopt_end_silent:
  assumes "getopt ord prog optstring gs = (None, lines, gs')"
  shows "lines = []"
  using assms
  by (auto simp: getopt_def Let_def split: list.splits if_splits dest: getopt_char_not_None)

lemma switch_opt_None_iff: "switch_opt opt optarg s = None \<longleftrightarrow> opt = CHR ''h''"
  by (cases s) (simp add: switch_opt_def)

lemma switch_opt_h: "switch_opt (CHR ''h'') optarg s = None"
  by (simp add: switch_opt_None_iff)


lemma main_loop_scan:
  "main_loop ord prog s gs =
     (case getopt_all ord prog optString gs of
        (rs, rest) \<Rightarrow>
          (loop_lines rs,
           case scan s (map fst rs) of
             None \<Rightarrow> Usage_exit
           | Some (cl, t, x) \<Rightarrow> Scanned cl t x rest))"
proof (induction ord prog s gs rule: main_loop.induct)
  case (1 ord prog s gs)
  obtain r lines gs' where g: "getopt ord prog optString gs = (r, lines, gs')"
    by (cases "getopt ord prog optString gs") auto
  show ?case
  proof (cases r)
    case None
    with g have "lines = []"
      by (auto dest: getopt_end_silent)
    with g None show ?thesis
      by (simp add: main_loop.simps [of ord prog s gs]
            getopt_all.simps [of ord prog optString gs] split: prod.splits)
  next
    case (Some e)
    obtain opt optarg where e: "e = (opt, optarg)" by (cases e)
    show ?thesis
    proof (cases "switch_opt opt optarg s")
      case None
      then have "opt = CHR ''h''"
        by (simp add: switch_opt_None_iff)
      with g Some e None show ?thesis
        by (simp add: main_loop.simps [of ord prog s gs]
              getopt_all.simps [of ord prog optString gs] split: prod.splits)
    next
      case (Some s')
      then have h: "opt \<noteq> CHR ''h''"
        using switch_opt_None_iff [of opt optarg s] by auto
      obtain rs rest where a: "getopt_all ord prog optString gs' = (rs, rest)"
        by (cases "getopt_all ord prog optString gs'") auto
      have ih: "main_loop ord prog s' gs' =
          (loop_lines rs,
           case scan s' (map fst rs) of
             None \<Rightarrow> Usage_exit
           | Some (cl, t, x) \<Rightarrow> Scanned cl t x rest)"
        using "1.IH" [OF g [symmetric] \<open>r = Some e\<close> e [symmetric] refl Some] a by simp
      have all: "getopt_all ord prog optString gs = ((e, lines) # rs, rest)"
        using g \<open>r = Some e\<close> a by (simp add: getopt_all.simps [of ord prog optString gs])
      have m: "main_loop ord prog s gs =
          (lines @ fst (main_loop ord prog s' gs'), snd (main_loop ord prog s' gs'))"
        using g \<open>r = Some e\<close> e Some
        by (simp add: main_loop.simps [of ord prog s gs] split: prod.splits)
      show ?thesis
        unfolding m all ih using e h Some by simp
    qed
  qed
qed

lemma scan_None_iff: "scan s es = None \<longleftrightarrow> occurs (CHR ''h'') es"
proof (induction es arbitrary: s)
  case Nil
  show ?case by (simp add: occurs_def)
next
  case (Cons e es)
  show ?case
  proof (cases "fst e = CHR ''h''")
    case True
    then show ?thesis by (simp add: switch_opt_h occurs_def)
  next
    case False
    then obtain s' where "switch_opt (fst e) (snd e) s = Some s'"
      by (cases "switch_opt (fst e) (snd e) s") (simp_all add: switch_opt_None_iff)
    with False Cons.IH [of s'] show ?thesis
      by (simp add: occurs_def)
  qed
qed

text \<open>What one pass through the \<^verbatim>\<open>switch\<close> does to each local that a property reads.\<close>

lemma switch_opt_fields:
  assumes "switch_opt opt optarg (cl, t, x) = Some (cl', t', x')"
  shows "t' = (if opt = CHR ''t'' then optarg else t)"
    and "x' = (if opt = CHR ''x'' then optarg else x)"
    and "input_file cl' = (if opt = CHR ''i'' then optarg else input_file cl)"
    and "output_file cl' = (if opt = CHR ''o'' then optarg else output_file cl)"
    and "geometry cl' = (opt = CHR ''g'' \<or> geometry cl)"
    and "max_exploration_level cl' = max_exploration_level cl"
    and "log_level cl' =
           (if opt = CHR ''v'' then info else if opt = CHR ''V'' then trace else log_level cl)"
  using assms by (auto simp: switch_opt_def split: if_splits)

lemma scan_Cons_Some:
  assumes "scan (cl, t, x) (e # es) = Some (cl', t', x')"
  obtains c1 t1 x1 where "switch_opt (fst e) (snd e) (cl, t, x) = Some (c1, t1, x1)"
    and "scan (c1, t1, x1) es = Some (cl', t', x')"
  using assms by (auto split: option.splits)

lemma scan_nb_threads_arg:
  "scan (cl, t, x) es = Some (cl', t', x') \<Longrightarrow> t' = last_value (CHR ''t'') t es"
proof (induction es arbitrary: cl t x)
  case Nil
  then show ?case by (simp add: last_value_def)
next
  case (Cons e es)
  from Cons.prems obtain c1 t1 x1
    where s: "switch_opt (fst e) (snd e) (cl, t, x) = Some (c1, t1, x1)"
      and r: "scan (c1, t1, x1) es = Some (cl', t', x')"
    by (rule scan_Cons_Some)
  show ?case
    using Cons.IH [OF r] switch_opt_fields(1) [OF s] by (simp add: last_value_def)
qed

lemma scan_exploration_level_arg:
  "scan (cl, t, x) es = Some (cl', t', x') \<Longrightarrow> x' = last_value (CHR ''x'') x es"
proof (induction es arbitrary: cl t x)
  case Nil
  then show ?case by (simp add: last_value_def)
next
  case (Cons e es)
  from Cons.prems obtain c1 t1 x1
    where s: "switch_opt (fst e) (snd e) (cl, t, x) = Some (c1, t1, x1)"
      and r: "scan (c1, t1, x1) es = Some (cl', t', x')"
    by (rule scan_Cons_Some)
  show ?case
    using Cons.IH [OF r] switch_opt_fields(2) [OF s] by (simp add: last_value_def)
qed

lemma scan_input_file:
  "scan (cl, t, x) es = Some (cl', t', x') \<Longrightarrow>
     input_file cl' = last_value (CHR ''i'') (input_file cl) es"
proof (induction es arbitrary: cl t x)
  case Nil
  then show ?case by (simp add: last_value_def)
next
  case (Cons e es)
  from Cons.prems obtain c1 t1 x1
    where s: "switch_opt (fst e) (snd e) (cl, t, x) = Some (c1, t1, x1)"
      and r: "scan (c1, t1, x1) es = Some (cl', t', x')"
    by (rule scan_Cons_Some)
  show ?case
    using Cons.IH [OF r] switch_opt_fields(3) [OF s] by (simp add: last_value_def)
qed

lemma scan_output_file:
  "scan (cl, t, x) es = Some (cl', t', x') \<Longrightarrow>
     output_file cl' = last_value (CHR ''o'') (output_file cl) es"
proof (induction es arbitrary: cl t x)
  case Nil
  then show ?case by (simp add: last_value_def)
next
  case (Cons e es)
  from Cons.prems obtain c1 t1 x1
    where s: "switch_opt (fst e) (snd e) (cl, t, x) = Some (c1, t1, x1)"
      and r: "scan (c1, t1, x1) es = Some (cl', t', x')"
    by (rule scan_Cons_Some)
  show ?case
    using Cons.IH [OF r] switch_opt_fields(4) [OF s] by (simp add: last_value_def)
qed

lemma scan_geometry:
  "scan (cl, t, x) es = Some (cl', t', x') \<Longrightarrow>
     geometry cl' = (occurs (CHR ''g'') es \<or> geometry cl)"
proof (induction es arbitrary: cl t x)
  case Nil
  then show ?case by (simp add: occurs_def)
next
  case (Cons e es)
  from Cons.prems obtain c1 t1 x1
    where s: "switch_opt (fst e) (snd e) (cl, t, x) = Some (c1, t1, x1)"
      and r: "scan (c1, t1, x1) es = Some (cl', t', x')"
    by (rule scan_Cons_Some)
  show ?case
    using Cons.IH [OF r] switch_opt_fields(5) [OF s] by (auto simp: occurs_def)
qed

lemma scan_max_exploration_level:
  "scan (cl, t, x) es = Some (cl', t', x') \<Longrightarrow>
     max_exploration_level cl' = max_exploration_level cl"
proof (induction es arbitrary: cl t x)
  case Nil
  then show ?case by simp
next
  case (Cons e es)
  from Cons.prems obtain c1 t1 x1
    where s: "switch_opt (fst e) (snd e) (cl, t, x) = Some (c1, t1, x1)"
      and r: "scan (c1, t1, x1) es = Some (cl', t', x')"
    by (rule scan_Cons_Some)
  show ?case
    using Cons.IH [OF r] switch_opt_fields(6) [OF s] by simp
qed

lemma scan_log_level:
  "scan (cl, t, x) es = Some (cl', t', x') \<Longrightarrow> log_level cl' = level_after (log_level cl) es"
proof (induction es arbitrary: cl t x)
  case Nil
  then show ?case by (simp add: level_after_def)
next
  case (Cons e es)
  from Cons.prems obtain c1 t1 x1
    where s: "switch_opt (fst e) (snd e) (cl, t, x) = Some (c1, t1, x1)"
      and r: "scan (c1, t1, x1) es = Some (cl', t', x')"
    by (rule scan_Cons_Some)
  show ?case
    using Cons.IH [OF r] switch_opt_fields(7) [OF s] by (simp add: level_after_def)
qed



lemma level_after_absent:
  "\<not> occurs (CHR ''v'') es \<Longrightarrow> \<not> occurs (CHR ''V'') es \<Longrightarrow> level_after dflt es = dflt"
  by (induction es rule: rev_induct) (auto simp: level_after_def occurs_def)

lemma level_after_last_v:
  "\<not> occurs (CHR ''v'') es' \<Longrightarrow> \<not> occurs (CHR ''V'') es' \<Longrightarrow>
     level_after dflt (es @ (CHR ''v'', a) # es') = info"
  by (induction es' rule: rev_induct) (auto simp: level_after_def occurs_def)

lemma level_after_last_V:
  "\<not> occurs (CHR ''v'') es' \<Longrightarrow> \<not> occurs (CHR ''V'') es' \<Longrightarrow>
     level_after dflt (es @ (CHR ''V'', a) # es') = trace"
  by (induction es' rule: rev_induct) (auto simp: level_after_def occurs_def)

lemma main_scan:
  "main env args =
     (case (case scanned env args of
              None \<Rightarrow> display_usage env
            | Some (cl, t, x) \<Rightarrow>
                (case validate cl t x of
                   Inl e \<Rightarrow> error_exit cl ''Wrong numerical value.''
                 | Inr cl1 \<Rightarrow>
                     (case acquire_input env cl1 (positional env args) of
                        None \<Rightarrow> display_usage env
                      | Some (acts, cl2) \<Rightarrow>
                          (case build_and_solve env cl2 of (acts', st) \<Rightarrow>
                             (acts @ Set_filter (log_level cl2) # acts', st))))) of
        (acts, st) \<Rightarrow> (map Stderr (getopt_lines env args) @ acts, st))"
proof -
  have init: "to_string (nb_threads (cl_args_init p l)) = ''4''"
    "to_string (exploration_level (cl_args_init p l)) = ''1''" for p l
    by (simp_all add: cl_args_init_def to_string_4 to_string_1)
  obtain rs rest where r: "getopt_report env args = (rs, rest)"
    by (cases "getopt_report env args") auto
  then have a: "getopt_all (getopt_ordering env) (argv0 env) optString (getopt_start args) = (rs, rest)"
    by (simp add: getopt_report_def)
  show ?thesis
    unfolding main_def Let_def init main_loop_scan a scanned_def flags_def positional_def
      getopt_lines_def r fst_conv snd_conv
    by (simp split: option.splits)
qed

lemma scanned_fields:
  assumes "scanned env args = Some (cl, t, x)"
  shows "t = last_value (CHR ''t'') ''4'' (flags env args)"
    and "x = last_value (CHR ''x'') ''1'' (flags env args)"
    and "input_file cl = last_value (CHR ''i'') [] (flags env args)"
    and "output_file cl = last_value (CHR ''o'') [] (flags env args)"
    and "geometry cl = occurs (CHR ''g'') (flags env args)"
    and "max_exploration_level cl = 5"
    and "log_level cl = level_after (default_level env) (flags env args)"
  using assms scan_nb_threads_arg scan_exploration_level_arg scan_input_file scan_output_file
    scan_geometry scan_max_exploration_level scan_log_level
  unfolding scanned_def
  by (fastforce simp: cl_args_init_def)+

lemma scanned_None_iff: "scanned env args = None \<longleftrightarrow> occurs (CHR ''h'') (flags env args)"
  by (simp add: scanned_def scan_None_iff)

lemma validate_Inr:
  assumes "validate cl t x = Inr cl1"
  obtains n m where "stoul t = Inr n" and "stoul x = Inr m"
    and "cl1 = cl\<lparr>nb_threads := ucast n,
                  exploration_level := min (ucast m) (max_exploration_level cl)\<rparr>"
  using assms by (auto simp: validate_def Let_def split: sum.splits)

lemma validate_Inl_iff:
  "(\<exists>e. validate cl t x = Inl e) \<longleftrightarrow> (\<exists>e. stoul t = Inl e) \<or> (\<exists>e. stoul x = Inl e)"
  by (auto simp: validate_def Let_def split: sum.splits)
lemma validate_keeps:
  assumes "validate cl t x = Inr cl1"
  shows "output_file cl1 = output_file cl" and "geometry cl1 = geometry cl"
    and "input_file cl1 = input_file cl" and "log_level cl1 = log_level cl"
  using assms by (auto elim!: validate_Inr)

lemma acquire_input_Some:
  assumes "acquire_input env cl1 rest = Some (acts, cl2)"
  shows "output_file cl2 = output_file cl1" and "geometry cl2 = geometry cl1"
    and "input_file cl2 = input_file cl1" and "log_level cl2 = log_level cl1"
    and "nb_threads cl2 = nb_threads cl1" and "exploration_level cl2 = exploration_level cl1"
    and "documents acts = []"
    and "payloads acts = []"
    and "\<forall>d g out. Write_to_json d g out \<notin> set acts"
    and "parse_calls acts = []"
    and "filters acts = []"
    and "solve_calls acts = []"
  using assms
  by (auto simp: acquire_input_def documents_def payloads_def parse_calls_def filters_def
        solve_calls_def split: if_splits list.splits)

text \<open>The lines of \<^verbatim>\<open>getopt\<close> are no documents, calls or filters.\<close>

lemma Stderr_lines:
  "documents (map Stderr ls @ acts) = documents acts"
  "payloads (map Stderr ls @ acts) = payloads acts"
  "parse_calls (map Stderr ls @ acts) = parse_calls acts"
  "solve_calls (map Stderr ls @ acts) = solve_calls acts"
  "filters (map Stderr ls @ acts) = filters acts"
  "Write_to_json d g out \<in> set (map Stderr ls @ acts) \<longleftrightarrow> Write_to_json d g out \<in> set acts"
  by (induction ls) (auto simp: documents_def payloads_def parse_calls_def solve_calls_def
        filters_def)

text \<open>The three ways the second \<^verbatim>\<open>try\<close> block ends.\<close>

lemma build_and_solve_cases:
  obtains
    (solved) p sol where "parse env cl = Inr p"
      and "solve env p (exploration_level cl) (nb_threads cl) = Inr sol"
      and "build_and_solve env cl =
             ([Parse cl, Solve p (exploration_level cl) (nb_threads cl),
               Write_to_json (Solution sol) (geometry cl) (output_file cl)], Exit 0)"
  | (caught) calls m where
      "calls = [Parse cl] \<or> (\<exists>p. calls = [Parse cl, Solve p (exploration_level cl) (nb_threads cl)])"
      and "build_and_solve env cl =
             (calls @ [Stderr (''[Error] '' @ m),
                       Write_to_json (Error 1 m) False (output_file cl)], Exit 1)"
  | (uncaught) calls w where
      "calls = [Parse cl] \<or> (\<exists>p. calls = [Parse cl, Solve p (exploration_level cl) (nb_threads cl)])"
      and "\<not> LIBOSRM env"
      and "build_and_solve env cl = (calls, Uncaught (std_exception w))"
proof (cases "parse env cl")
  case (Inl e)
  show ?thesis
  proof (cases e)
    case (custom_exception m)
    with Inl show ?thesis
      by (intro caught [of "[Parse cl]" m]) (simp_all add: build_and_solve_def catch_def error_exit_def)
  next
    case (std_exception w)
    show ?thesis
    proof (cases "LIBOSRM env")
      case True
      with Inl std_exception show ?thesis
        by (intro caught [of "[Parse cl]" w])
          (simp_all add: build_and_solve_def catch_def error_exit_def)
    next
      case False
      with Inl std_exception show ?thesis
        by (intro uncaught [of "[Parse cl]" w])
          (simp_all add: build_and_solve_def catch_def error_exit_def)
    qed
  qed
next
  case (Inr p)
  let ?calls = "[Parse cl, Solve p (exploration_level cl) (nb_threads cl)]"
  show ?thesis
  proof (cases "solve env p (exploration_level cl) (nb_threads cl)")
    case (Inl e)
    show ?thesis
    proof (cases e)
      case (custom_exception m)
      with Inl Inr show ?thesis
        by (intro caught [of ?calls m]) (simp_all add: build_and_solve_def catch_def error_exit_def)
    next
      case (std_exception w)
      show ?thesis
      proof (cases "LIBOSRM env")
        case True
        with Inl Inr std_exception show ?thesis
          by (intro caught [of ?calls w])
            (simp_all add: build_and_solve_def catch_def error_exit_def)
      next
        case False
        with Inl Inr std_exception show ?thesis
          by (intro uncaught [of ?calls w])
            (simp_all add: build_and_solve_def catch_def error_exit_def)
      qed
    qed
  next
    case (Inr sol)
    with \<open>parse env cl = Inr p\<close> show ?thesis
      by (intro solved [of p sol]) (simp_all add: build_and_solve_def)
  qed
qed

text \<open>The four ways a run goes, with the configuration each stage works on.\<close>

lemma main_cases:
  obtains
    (by_flag) "occurs (CHR ''h'') (flags env args)"
      and "main env args =
             (map Stderr (getopt_lines env args) @ fst (display_usage env), Exit 0)"
  | (invalid) cl t x where "scanned env args = Some (cl, t, x)"
      and "\<exists>e. validate cl t x = Inl e"
      and "main env args =
             (map Stderr (getopt_lines env args)
                @ fst (error_exit cl ''Wrong numerical value.''), Exit 1)"
  | (no_input) cl t x cl1 where "scanned env args = Some (cl, t, x)"
      and "validate cl t x = Inr cl1"
      and "acquire_input env cl1 (positional env args) = None"
      and "main env args =
             (map Stderr (getopt_lines env args) @ fst (display_usage env), Exit 0)"
  | (run) cl t x cl1 acts cl2 where "scanned env args = Some (cl, t, x)"
      and "validate cl t x = Inr cl1"
      and "acquire_input env cl1 (positional env args) = Some (acts, cl2)"
      and "main env args =
             (map Stderr (getopt_lines env args)
                @ acts @ Set_filter (log_level cl2) # fst (build_and_solve env cl2),
              snd (build_and_solve env cl2))"
proof (cases "scanned env args")
  case None
  then show ?thesis
    by (intro by_flag) (simp_all add: main_scan scanned_None_iff [THEN iffD1] display_usage_def)
next
  case (Some s)
  obtain cl t x where s: "s = (cl, t, x)" by (cases s)
  show ?thesis
  proof (cases "validate cl t x")
    case (Inl e)
    with Some s show ?thesis
      by (intro invalid [of cl t x]) (simp_all add: main_scan error_exit_def)
  next
    case (Inr cl1)
    show ?thesis
    proof (cases "acquire_input env cl1 (positional env args)")
      case None
      with Some s Inr show ?thesis
        by (intro no_input [of cl t x cl1]) (simp_all add: main_scan display_usage_def)
    next
      case (Some r)
      obtain acts cl2 where r: "r = (acts, cl2)" by (cases r)
      from Some r \<open>scanned env args = Some s\<close> s Inr show ?thesis
        by (intro run [of cl t x cl1 acts cl2]) (simp_all add: main_scan split: prod.splits)
    qed
  qed
qed

subsection \<open>Concrete runs\<close>

text \<open>The equations that evaluate a run on a given argument vector.\<close>

lemmas run_simps =
  main_def main_loop.simps getopt_def getopt_char_def getopt_start_def getopt_ordering_def
  optString_def SQ_def
  switch_opt_def validate_def stoul_def isspace_def isdigit_def digits_val_def digit_val_def
  ULONG_MAX_def acquire_input_def build_and_solve_def catch_def error_exit_def
  display_usage_def cl_args_init_def to_string_4 to_string_1 sample_env_def

lemmas flags_simps =
  flags_def positional_def getopt_lines_def getopt_report_def getopt_all.simps getopt_def
  getopt_char_def getopt_start_def getopt_ordering_def optString_def SQ_def
  occurs_def last_value_def level_after_def sample_env_def

lemmas stoul_simps =
  stoul_def isspace_def isdigit_def digits_val_def digit_val_def ULONG_MAX_def

text \<open>The notions above go through a run piece by piece.\<close>

lemma notions_append:
  "documents (as @ bs) = documents as @ documents bs"
  "payloads (as @ bs) = payloads as @ payloads bs"
  "parse_calls (as @ bs) = parse_calls as @ parse_calls bs"
  "solve_calls (as @ bs) = solve_calls as @ solve_calls bs"
  "filters (as @ bs) = filters as @ filters bs"
  by (simp_all add: documents_def payloads_def parse_calls_def solve_calls_def filters_def)

lemma notions_Cons:
  "documents (a # as) = (if is_document a then a # documents as else documents as)"
  "payloads (a # as) = payload a @ payloads as"
  "parse_calls (a # as) = parse_call a @ parse_calls as"
  "solve_calls (a # as) = solve_call a @ solve_calls as"
  "filters (a # as) = filter_set a @ filters as"
  by (simp_all add: documents_def payloads_def parse_calls_def solve_calls_def filters_def)

lemma notions_Nil:
  "documents [] = []" "payloads [] = []" "parse_calls [] = []" "solve_calls [] = []"
  "filters [] = []"
  by (simp_all add: documents_def payloads_def parse_calls_def solve_calls_def filters_def)

text \<open>
  The case \<open>run\<close> is the one of the runs that proceed, and in it the configuration
  handed to \<^verbatim>\<open>parse\<close> is the one the earlier stages have built.
\<close>

lemma proceeds_iff:
  "proceeds env args \<longleftrightarrow>
     (\<exists>cl t x cl1 acts cl2. scanned env args = Some (cl, t, x) \<and> validate cl t x = Inr cl1
        \<and> acquire_input env cl1 (positional env args) = Some (acts, cl2))"
proof
  assume p: "proceeds env args"
  then have "scanned env args \<noteq> None"
    by (simp add: proceeds_def scanned_None_iff)
  then obtain cl t x where s: "scanned env args = Some (cl, t, x)"
    by (cases "scanned env args") auto
  from p scanned_fields(1,2) [OF s] obtain cl1 where v: "validate cl t x = Inr cl1"
    by (auto simp: proceeds_def validate_def Let_def)
  have "input_file cl1 = last_value (CHR ''i'') [] (flags env args)"
    using scanned_fields(3) [OF s] validate_keeps(3) [OF v] by simp
  with p have "acquire_input env cl1 (positional env args) \<noteq> None"
    by (cases "positional env args") (auto simp: proceeds_def acquire_input_def)
  then obtain r where "acquire_input env cl1 (positional env args) = Some r"
    by auto
  then obtain acts cl2 where "acquire_input env cl1 (positional env args) = Some (acts, cl2)"
    by (cases r) auto
  with s v show "\<exists>cl t x cl1 acts cl2. scanned env args = Some (cl, t, x)
      \<and> validate cl t x = Inr cl1
      \<and> acquire_input env cl1 (positional env args) = Some (acts, cl2)"
    by blast
next
  assume "\<exists>cl t x cl1 acts cl2. scanned env args = Some (cl, t, x)
      \<and> validate cl t x = Inr cl1
      \<and> acquire_input env cl1 (positional env args) = Some (acts, cl2)"
  then obtain cl t x cl1 acts cl2 where s: "scanned env args = Some (cl, t, x)"
    and v: "validate cl t x = Inr cl1"
    and a: "acquire_input env cl1 (positional env args) = Some (acts, cl2)"
    by blast
  have h: "\<not> occurs (CHR ''h'') (flags env args)"
    using s scanned_None_iff [of env args] by simp
  from v obtain n m where "stoul t = Inr n" "stoul x = Inr m"
    by (rule validate_Inr)
  then have c: "\<exists>n. stoul (last_value (CHR ''t'') ''4'' (flags env args)) = Inr n"
    "\<exists>m. stoul (last_value (CHR ''x'') ''1'' (flags env args)) = Inr m"
    using scanned_fields(1,2) [OF s] by auto
  have "input_file cl1 = last_value (CHR ''i'') [] (flags env args)"
    using scanned_fields(3) [OF s] validate_keeps(3) [OF v] by simp
  with a have "last_value (CHR ''i'') [] (flags env args) \<noteq> [] \<or> positional env args \<noteq> []"
    by (auto simp: acquire_input_def split: if_splits list.splits)
  with h c show "proceeds env args"
    by (simp add: proceeds_def)
qed

text \<open>What the calls and documents of the second \<^verbatim>\<open>try\<close> block are.\<close>

lemma build_and_solve_parse_calls: "parse_calls (fst (build_and_solve env cl)) = [cl]"
  by (cases rule: build_and_solve_cases [of env cl]) (auto simp: parse_calls_def)

lemma build_and_solve_filters: "filters (fst (build_and_solve env cl)) = []"
  by (cases rule: build_and_solve_cases [of env cl]) (auto simp: filters_def)


lemma build_and_solve_documents:
  "(documents (fst (build_and_solve env cl)), snd (build_and_solve env cl)) =
     (case parse env cl of
        Inl e \<Rightarrow>
          (case e of
             custom_exception m \<Rightarrow> ([Write_to_json (Error 1 m) False (output_file cl)], Exit 1)
           | std_exception w \<Rightarrow>
               (if LIBOSRM env then ([Write_to_json (Error 1 w) False (output_file cl)], Exit 1)
                else ([], Uncaught e)))
      | Inr p \<Rightarrow>
          (case solve env p (exploration_level cl) (nb_threads cl) of
             Inl e \<Rightarrow>
               (case e of
                  custom_exception m \<Rightarrow>
                    ([Write_to_json (Error 1 m) False (output_file cl)], Exit 1)
                | std_exception w \<Rightarrow>
                    (if LIBOSRM env
                     then ([Write_to_json (Error 1 w) False (output_file cl)], Exit 1)
                     else ([], Uncaught e)))
           | Inr sol \<Rightarrow>
               ([Write_to_json (Solution sol) (geometry cl) (output_file cl)], Exit 0)))"
  by (auto simp: build_and_solve_def catch_def error_exit_def documents_def
        split: sum.splits exn.splits)

text \<open>A run that proceeds, with the configuration it hands to \<^verbatim>\<open>parse\<close>.\<close>

lemma proceeds_run:
  assumes "proceeds env args"
  obtains pre c where
    "main env args = (pre @ Set_filter (log_level c) # fst (build_and_solve env c),
                      snd (build_and_solve env c))"
    and "documents pre = []" and "parse_calls pre = []" and "solve_calls pre = []"
    and "filters pre = []" and "payloads pre = []"
    and "\<forall>d g out. Write_to_json d g out \<notin> set pre"
    and "output_file c = destination env args"
    and "geometry c = occurs (CHR ''g'') (flags env args)"
    and "log_level c = level_after (default_level env) (flags env args)"
    and "\<exists>n m. stoul (last_value (CHR ''t'') ''4'' (flags env args)) = Inr n
           \<and> stoul (last_value (CHR ''x'') ''1'' (flags env args)) = Inr m
           \<and> nb_threads c = ucast n \<and> exploration_level c = min (ucast m) 5"
    and "input c =
           (if last_value (CHR ''i'') [] (flags env args) \<noteq> []
            then contents env (last_value (CHR ''i'') [] (flags env args))
            else hd (positional env args))"
proof -
  from assms obtain cl t x cl1 acts cl2 where s: "scanned env args = Some (cl, t, x)"
    and v: "validate cl t x = Inr cl1"
    and a: "acquire_input env cl1 (positional env args) = Some (acts, cl2)"
    unfolding proceeds_iff by blast
  let ?pre = "map Stderr (getopt_lines env args) @ acts"
  have m: "main env args = (?pre @ Set_filter (log_level cl2) # fst (build_and_solve env cl2),
      snd (build_and_solve env cl2))"
    using s v a by (simp add: main_scan split: prod.splits)
  from v obtain n m where n: "stoul t = Inr n" and m': "stoul x = Inr m"
    and cl1: "cl1 = cl\<lparr>nb_threads := ucast n,
                        exploration_level := min (ucast m) (max_exploration_level cl)\<rparr>"
    by (rule validate_Inr)
  have f: "input_file cl1 = last_value (CHR ''i'') [] (flags env args)"
    using scanned_fields(3) [OF s] validate_keeps(3) [OF v] by simp
  have i: "input cl2 =
      (if last_value (CHR ''i'') [] (flags env args) \<noteq> []
       then contents env (last_value (CHR ''i'') [] (flags env args))
       else hd (positional env args))"
    using a f by (auto simp: acquire_input_def contents_def split: if_splits list.splits)
  have num: "\<exists>n m. stoul (last_value (CHR ''t'') ''4'' (flags env args)) = Inr n
      \<and> stoul (last_value (CHR ''x'') ''1'' (flags env args)) = Inr m
      \<and> nb_threads cl2 = ucast n \<and> exploration_level cl2 = min (ucast m) 5"
    using n m' cl1 acquire_input_Some(5,6) [OF a] scanned_fields(1,2,6) [OF s] by simp
  show ?thesis
  proof (rule that [of ?pre cl2])
    show "main env args = (?pre @ Set_filter (log_level cl2) # fst (build_and_solve env cl2),
        snd (build_and_solve env cl2))"
      by (rule m)
    show "documents ?pre = []" "parse_calls ?pre = []" "solve_calls ?pre = []"
      "filters ?pre = []" "payloads ?pre = []"
      using acquire_input_Some(7,8,10,11,12) [OF a] by (simp_all add: Stderr_lines)
    show "\<forall>d g out. Write_to_json d g out \<notin> set ?pre"
      using acquire_input_Some(9) [OF a] by auto
    show "output_file cl2 = destination env args"
      using scanned_fields(4) [OF s] validate_keeps(1) [OF v] acquire_input_Some(1) [OF a]
      by (simp add: destination_def)
    show "geometry cl2 = occurs (CHR ''g'') (flags env args)"
      using scanned_fields(5) [OF s] validate_keeps(2) [OF v] acquire_input_Some(2) [OF a]
      by simp
    show "log_level cl2 = level_after (default_level env) (flags env args)"
      using scanned_fields(7) [OF s] validate_keeps(4) [OF v] acquire_input_Some(4) [OF a]
      by simp
    show "\<exists>n m. stoul (last_value (CHR ''t'') ''4'' (flags env args)) = Inr n
        \<and> stoul (last_value (CHR ''x'') ''1'' (flags env args)) = Inr m
        \<and> nb_threads cl2 = ucast n \<and> exploration_level cl2 = min (ucast m) 5"
      by (rule num)
    show "input cl2 =
        (if last_value (CHR ''i'') [] (flags env args) \<noteq> []
         then contents env (last_value (CHR ''i'') [] (flags env args))
         else hd (positional env args))"
      by (rule i)
  qed
qed

text \<open>A run that does not proceed: the three ways it ends.\<close>

lemma not_proceeds_run:
  assumes "\<not> proceeds env args"
  shows "main env args =
           (map Stderr (getopt_lines env args) @
              (if occurs (CHR ''h'') (flags env args) then [Stdout (usage (version env) @ NL)]
               else if (\<exists>n. stoul (last_value (CHR ''t'') ''4'' (flags env args)) = Inr n)
                       \<and> (\<exists>m. stoul (last_value (CHR ''x'') ''1'' (flags env args)) = Inr m)
               then [Stdout (usage (version env) @ NL)]
               else [Stderr ''[Error] Wrong numerical value.'',
                     Write_to_json (Error 1 ''Wrong numerical value.'') False
                       (destination env args)]),
            if occurs (CHR ''h'') (flags env args) then Exit 0
            else if (\<exists>n. stoul (last_value (CHR ''t'') ''4'' (flags env args)) = Inr n)
                    \<and> (\<exists>m. stoul (last_value (CHR ''x'') ''1'' (flags env args)) = Inr m)
            then Exit 0 else Exit 1)"
proof (cases rule: main_cases [of env args])
  case by_flag
  then show ?thesis by (simp add: display_usage_def)
next
  case (invalid cl t x)
  have h: "\<not> occurs (CHR ''h'') (flags env args)"
    using invalid(1) scanned_None_iff [of env args] by simp
  from invalid(2) scanned_fields(1,2) [OF invalid(1)]
  have "\<not> ((\<exists>n. stoul (last_value (CHR ''t'') ''4'' (flags env args)) = Inr n)
      \<and> (\<exists>m. stoul (last_value (CHR ''x'') ''1'' (flags env args)) = Inr m))"
    by (auto simp: validate_def Let_def split: sum.splits)
  with h invalid(3) scanned_fields(4) [OF invalid(1)] show ?thesis
    by (simp add: error_exit_def destination_def)
next
  case (no_input cl t x cl1)
  have h: "\<not> occurs (CHR ''h'') (flags env args)"
    using no_input(1) scanned_None_iff [of env args] by simp
  from no_input(2) obtain n m where "stoul t = Inr n" "stoul x = Inr m"
    by (rule validate_Inr)
  with scanned_fields(1,2) [OF no_input(1)]
  have "(\<exists>n. stoul (last_value (CHR ''t'') ''4'' (flags env args)) = Inr n)
      \<and> (\<exists>m. stoul (last_value (CHR ''x'') ''1'' (flags env args)) = Inr m)"
    by auto
  with h no_input(4) show ?thesis
    by (simp add: display_usage_def)
next
  case (run cl t x cl1 acts cl2)
  then have "proceeds env args"
    unfolding proceeds_iff by blast
  with assms show ?thesis by simp
qed

subsection \<open>Documents\<close>

text \<open>
  C1, as amended. A run that proceeds calls \<^verbatim>\<open>parse\<close> once, and its documents and
  its end are decided by the collaborators: the solution document, written with the
  geometry toggle to the output file of the flags, and exit code 0 when both return;
  after a \<^verbatim>\<open>custom_exception\<close> of either, one error document with code 1 and the
  message, written without geometry to the output file of the flags, and exit code 1;
  after another exception the same where the handler under \<^verbatim>\<open>#if LIBOSRM\<close> is
  compiled, and otherwise no document at all, the exception leaving \<^verbatim>\<open>main\<close>. A
  run that does not proceed writes the usage text alone and ends with exit code 0 when
  \<^verbatim>\<open>-h\<close> is reported or when the numeric texts are converted and the input is
  missing; otherwise the numeric validation has failed, and it writes the one error
  document \<^verbatim>\<open>Wrong numerical value.\<close> and ends with exit code 1. No run writes two
  documents.
\<close>

theorem main_documents:
  "(proceeds env args \<longrightarrow>
      (\<exists>c. parse_calls (fst (main env args)) = [c]
         \<and> (documents (fst (main env args)), snd (main env args)) =
             (case parse env c of
                Inl e \<Rightarrow> after_exception env args e
              | Inr p \<Rightarrow>
                  (case solve env p (exploration_level c) (nb_threads c) of
                     Inl e \<Rightarrow> after_exception env args e
                   | Inr sol \<Rightarrow>
                       ([Write_to_json (Solution sol) (occurs (CHR ''g'') (flags env args))
                           (destination env args)],
                        Exit 0)))))
   \<and> (\<not> proceeds env args \<longrightarrow>
        (documents (fst (main env args)), snd (main env args)) =
          (if occurs (CHR ''h'') (flags env args)
           then ([Stdout (usage (version env) @ NL)], Exit 0)
           else if (\<exists>n. stoul (last_value (CHR ''t'') ''4'' (flags env args)) = Inr n)
                   \<and> (\<exists>m. stoul (last_value (CHR ''x'') ''1'' (flags env args)) = Inr m)
           then ([Stdout (usage (version env) @ NL)], Exit 0)
           else ([Write_to_json (Error 1 ''Wrong numerical value.'') False
                    (destination env args)],
                 Exit 1)))"
proof (intro conjI impI)
  assume "proceeds env args"
  then obtain pre c where m: "main env args =
      (pre @ Set_filter (log_level c) # fst (build_and_solve env c),
       snd (build_and_solve env c))"
    and pre: "documents pre = []" "parse_calls pre = []"
    and out: "output_file c = destination env args"
    and geo: "geometry c = occurs (CHR ''g'') (flags env args)"
    by (rule proceeds_run)
  have calls: "parse_calls (fst (main env args)) = [c]"
    using m pre(2) build_and_solve_parse_calls [of env c] by (simp add: parse_calls_def)
  have "documents (fst (main env args)) = documents (fst (build_and_solve env c))"
    using m pre(1) by (simp add: documents_def)
  then have "(documents (fst (main env args)), snd (main env args)) =
      (documents (fst (build_and_solve env c)), snd (build_and_solve env c))"
    using m by simp
  also have "\<dots> =
      (case parse env c of
         Inl e \<Rightarrow> after_exception env args e
       | Inr p \<Rightarrow>
           (case solve env p (exploration_level c) (nb_threads c) of
              Inl e \<Rightarrow> after_exception env args e
            | Inr sol \<Rightarrow>
                ([Write_to_json (Solution sol) (occurs (CHR ''g'') (flags env args))
                    (destination env args)],
                 Exit 0)))"
    unfolding build_and_solve_documents after_exception_def out geo
    by (simp split: sum.splits exn.splits)
  finally show "\<exists>c. parse_calls (fst (main env args)) = [c]
      \<and> (documents (fst (main env args)), snd (main env args)) =
          (case parse env c of
             Inl e \<Rightarrow> after_exception env args e
           | Inr p \<Rightarrow>
               (case solve env p (exploration_level c) (nb_threads c) of
                  Inl e \<Rightarrow> after_exception env args e
                | Inr sol \<Rightarrow>
                    ([Write_to_json (Solution sol) (occurs (CHR ''g'') (flags env args))
                        (destination env args)],
                     Exit 0)))"
    using calls by blast
next
  assume "\<not> proceeds env args"
  then show "(documents (fst (main env args)), snd (main env args)) =
      (if occurs (CHR ''h'') (flags env args)
       then ([Stdout (usage (version env) @ NL)], Exit 0)
       else if (\<exists>n. stoul (last_value (CHR ''t'') ''4'' (flags env args)) = Inr n)
               \<and> (\<exists>m. stoul (last_value (CHR ''x'') ''1'' (flags env args)) = Inr m)
       then ([Stdout (usage (version env) @ NL)], Exit 0)
       else ([Write_to_json (Error 1 ''Wrong numerical value.'') False
                (destination env args)],
             Exit 1))"
    by (simp add: not_proceeds_run Stderr_lines documents_def)
qed

theorem main_documents_witness:
  "proceeds (sample_env True) [''huge'', ''-g'', ''-o'', ''out.json'']
   \<and> documents (fst (main (sample_env True) [''huge'', ''-g'', ''-o'', ''out.json''])) =
       [Write_to_json (Error 1 ''std::bad_alloc'') False ''out.json'']
   \<and> snd (main (sample_env True) [''huge'', ''-g'', ''-o'', ''out.json'']) = Exit 1
   \<and> \<not> proceeds (sample_env False) [''-o'', ''out.json'', ''{}'', ''-x'', ''abc'']
   \<and> documents (fst (main (sample_env False) [''-o'', ''out.json'', ''{}'', ''-x'', ''abc''])) =
       [Write_to_json (Error 1 ''Wrong numerical value.'') False ''out.json'']
   \<and> snd (main (sample_env False) [''-o'', ''out.json'', ''{}'', ''-x'', ''abc'']) = Exit 1"
proof -
  let ?a = "[''huge'', ''-g'', ''-o'', ''out.json'']"
  let ?b = "[''-o'', ''out.json'', ''{}'', ''-x'', ''abc'']"
  have pa: "proceeds (sample_env True) ?a"
    by (simp add: proceeds_def flags_simps stoul_simps)
  have pb: "\<not> proceeds (sample_env False) ?b"
    by (simp add: proceeds_def flags_simps stoul_simps)
  have fb: "\<not> occurs (CHR ''h'') (flags (sample_env False) ?b)"
    "stoul (last_value (CHR ''x'') ''1'' (flags (sample_env False) ?b)) = Inl invalid_argument"
    "destination (sample_env False) ?b = ''out.json''"
    by (simp_all add: destination_def flags_simps stoul_simps)
  have da: "destination (sample_env True) ?a = ''out.json''"
    by (simp add: destination_def flags_simps)
  from main_documents [of "sample_env True" ?a] pa
  obtain c where c: "parse_calls (fst (main (sample_env True) ?a)) = [c]"
    and d: "(documents (fst (main (sample_env True) ?a)), snd (main (sample_env True) ?a)) =
      (case parse (sample_env True) c of
         Inl e \<Rightarrow> after_exception (sample_env True) ?a e
       | Inr p \<Rightarrow>
           (case solve (sample_env True) p (exploration_level c) (nb_threads c) of
              Inl e \<Rightarrow> after_exception (sample_env True) ?a e
            | Inr sol \<Rightarrow>
                ([Write_to_json (Solution sol) (occurs (CHR ''g'') (flags (sample_env True) ?a))
                    (destination (sample_env True) ?a)],
                 Exit 0)))"
    by blast
  have "input c = ''huge''"
    using c by (auto simp: run_simps parse_calls_def)
  then have "parse (sample_env True) c = Inl (std_exception ''std::bad_alloc'')"
    by (simp add: sample_env_def)
  with d da have a: "documents (fst (main (sample_env True) ?a)) =
      [Write_to_json (Error 1 ''std::bad_alloc'') False ''out.json'']"
    "snd (main (sample_env True) ?a) = Exit 1"
    by (simp_all add: after_exception_def sample_env_def)
  from main_documents [of "sample_env False" ?b] pb fb
  have b: "documents (fst (main (sample_env False) ?b)) =
      [Write_to_json (Error 1 ''Wrong numerical value.'') False ''out.json'']"
    "snd (main (sample_env False) ?b) = Exit 1"
    by simp_all
  from pa pb a b show ?thesis by simp
qed

text \<open>
  As the specification states it, that every failure writes one error document, the
  property fails: built without \<^verbatim>\<open>LIBOSRM\<close>, a run in which \<^verbatim>\<open>parse\<close> throws
  \<^verbatim>\<open>std::bad_alloc\<close> writes no document at all.
\<close>

theorem uncaught_exception_counterexample:
  "documents (fst (main (sample_env False) [''huge''])) = []
   \<and> snd (main (sample_env False) [''huge'']) = Uncaught (std_exception ''std::bad_alloc'')"
  by (simp add: run_simps documents_def)

subsection \<open>Numeric validation and what follows a failure\<close>

text \<open>
  C3. When the option loop has ended without \<^verbatim>\<open>-h\<close> and the text of \<^verbatim>\<open>-t\<close> or of
  \<^verbatim>\<open>-x\<close> (the last one reported, or the default) is not converted, the run is: the
  lines \<^verbatim>\<open>getopt\<close> has written about the options, the line
  \<^verbatim>\<open>[Error] Wrong numerical value.\<close> on standard error, the error document with
  code 1 and that message written without geometry to the output file the flags
  have set, and exit code 1. Nothing is read, no filter is set, and \<^verbatim>\<open>parse\<close> and
  \<^verbatim>\<open>solve\<close> are not called, whatever the environment.
\<close>

theorem wrong_numerical_value:
  assumes "\<not> occurs (CHR ''h'') (flags env args)"
    and "(\<exists>e. stoul (last_value (CHR ''t'') ''4'' (flags env args)) = Inl e)
         \<or> (\<exists>e. stoul (last_value (CHR ''x'') ''1'' (flags env args)) = Inl e)"
  shows "main env args =
           (map Stderr (getopt_lines env args) @
              [Stderr ''[Error] Wrong numerical value.'',
               Write_to_json (Error 1 ''Wrong numerical value.'') False
                 (last_value (CHR ''o'') [] (flags env args))],
            Exit 1)"
proof -
  from assms(2) have n: "\<not> ((\<exists>n. stoul (last_value (CHR ''t'') ''4'' (flags env args)) = Inr n)
      \<and> (\<exists>m. stoul (last_value (CHR ''x'') ''1'' (flags env args)) = Inr m))"
    by auto
  then have "\<not> proceeds env args"
    by (auto simp: proceeds_def)
  from not_proceeds_run [OF this] assms(1) n show ?thesis
    by (simp add: destination_def)
qed

theorem wrong_numerical_value_witness:
  "\<not> occurs (CHR ''h'') (flags (sample_env False) [''-z'', ''-o'', ''out.json'', ''{}'', ''-g'', ''-t'', ''abc''])
   \<and> stoul (last_value (CHR ''t'') ''4''
             (flags (sample_env False) [''-z'', ''-o'', ''out.json'', ''{}'', ''-g'', ''-t'', ''abc'']))
       = Inl invalid_argument
   \<and> main (sample_env False) [''-z'', ''-o'', ''out.json'', ''{}'', ''-g'', ''-t'', ''abc''] =
       ([Stderr (''vroom: invalid option -- '' @ SQ @ ''z'' @ SQ),
         Stderr ''[Error] Wrong numerical value.'',
         Write_to_json (Error 1 ''Wrong numerical value.'') False ''out.json''],
        Exit 1)"
proof -
  let ?args = "[''-z'', ''-o'', ''out.json'', ''{}'', ''-g'', ''-t'', ''abc'']"
  let ?env = "sample_env False :: (string, string) env"
  have h: "\<not> occurs (CHR ''h'') (flags ?env ?args)"
    by (simp add: flags_simps)
  have t: "last_value (CHR ''t'') ''4'' (flags ?env ?args) = ''abc''"
    by (simp add: flags_simps)
  have s: "stoul ''abc'' = Inl invalid_argument"
    by (simp add: stoul_def isspace_def isdigit_def)
  have o: "last_value (CHR ''o'') [] (flags ?env ?args) = ''out.json''"
    by (simp add: flags_simps)
  have l: "getopt_lines ?env ?args = [''vroom: invalid option -- '' @ SQ @ ''z'' @ SQ]"
    by (simp add: flags_simps)
  from t s have f: "(\<exists>e. stoul (last_value (CHR ''t'') ''4'' (flags ?env ?args)) = Inl e)
      \<or> (\<exists>e. stoul (last_value (CHR ''x'') ''1'' (flags ?env ?args)) = Inl e)"
    by simp
  from wrong_numerical_value [OF h f] h t s o l
  show ?thesis by simp
qed

subsection \<open>Missing input\<close>




subsection \<open>The geometry toggle\<close>

text \<open>
  C9. Whenever a run calls \<^verbatim>\<open>write_to_json\<close>, the geometry toggle is off for an error
  document, also when \<^verbatim>\<open>-g\<close> was given, and for the solution document it tells
  whether \<^verbatim>\<open>-g\<close> was given.
\<close>

theorem error_documents_without_geometry:
  assumes "Write_to_json d g out \<in> set (fst (main env args))"
  shows "g = (case d of
                Solution sol \<Rightarrow> occurs (CHR ''g'') (flags env args)
              | Error code m \<Rightarrow> False)"
proof (cases "proceeds env args")
  case True
  then obtain pre c where m: "main env args =
      (pre @ Set_filter (log_level c) # fst (build_and_solve env c),
       snd (build_and_solve env c))"
    and pre: "\<forall>d g out. Write_to_json d g out \<notin> set pre"
    and geo: "geometry c = occurs (CHR ''g'') (flags env args)"
    by (rule proceeds_run)
  from assms m pre have w: "Write_to_json d g out \<in> set (fst (build_and_solve env c))"
    by auto
  show ?thesis
  proof (cases rule: build_and_solve_cases [of env c])
    case (solved p sol)
    with w geo show ?thesis by auto
  next
    case (caught calls m)
    with w show ?thesis by auto
  next
    case (uncaught calls w')
    with w show ?thesis by auto
  qed
next
  case False
  from assms not_proceeds_run [OF False] show ?thesis
    by (auto split: if_splits)
qed

theorem error_documents_without_geometry_witness:
  "Write_to_json (Error 1 ''Error while parsing.'') False ''out.json''
     \<in> set (fst (main (sample_env False) [''-i'', ''missing.json'', ''-o'', ''out.json'', ''-g'']))
   \<and> occurs (CHR ''g'') (flags (sample_env False) [''-i'', ''missing.json'', ''-o'', ''out.json'', ''-g''])
   \<and> Write_to_json (Solution ''{}'') True []
     \<in> set (fst (main (sample_env False) [''{}'', ''-g'']))
   \<and> occurs (CHR ''g'') (flags (sample_env False) [''{}'', ''-g''])
   \<and> Write_to_json (Solution ''{}'') False []
     \<in> set (fst (main (sample_env False) [''{}'']))
   \<and> \<not> occurs (CHR ''g'') (flags (sample_env False) [''{}''])"
proof -
  let ?env = "sample_env False :: (string, string) env"
  let ?a = "[''-i'', ''missing.json'', ''-o'', ''out.json'', ''-g'']"
  have e: "Write_to_json (Error 1 ''Error while parsing.'') False ''out.json''
      \<in> set (fst (main ?env ?a))"
    by (simp add: run_simps)
  have s: "Write_to_json (Solution ''{}'') True [] \<in> set (fst (main ?env [''{}'', ''-g'']))"
    by (simp add: run_simps)
  have p: "Write_to_json (Solution ''{}'') False [] \<in> set (fst (main ?env [''{}'']))"
    by (simp add: run_simps)
  have g: "occurs (CHR ''g'') (flags ?env ?a)"
    by (simp add: flags_simps)
  from error_documents_without_geometry [OF e] error_documents_without_geometry [OF s]
    error_documents_without_geometry [OF p] e s p g
  show ?thesis by simp
qed

subsection \<open>Severity of the diagnostics\<close>

text \<open>
  C10. A run that proceeds sets the filter of the logging core once, and a run that does
  not proceed never sets it; whether a run proceeds does not depend on \<^verbatim>\<open>-v\<close> and
  \<^verbatim>\<open>-V\<close>, so no combination of the two is an error. The severity set is decided by
  the last of the two flags: \<^verbatim>\<open>info\<close> when it is \<^verbatim>\<open>-v\<close>, \<^verbatim>\<open>trace\<close> when it is
  \<^verbatim>\<open>-V\<close>, whatever came before, and the default when neither occurs.
\<close>

theorem verbosity_last_wins:
  "\<exists>level. filters (fst (main env args)) = (if proceeds env args then [level] else [])
     \<and> (\<forall>es a es'. flags env args = es @ (CHR ''v'', a) # es'
            \<and> \<not> occurs (CHR ''v'') es' \<and> \<not> occurs (CHR ''V'') es' \<longrightarrow> level = info)
     \<and> (\<forall>es a es'. flags env args = es @ (CHR ''V'', a) # es'
            \<and> \<not> occurs (CHR ''v'') es' \<and> \<not> occurs (CHR ''V'') es' \<longrightarrow> level = trace)
     \<and> (\<not> occurs (CHR ''v'') (flags env args) \<and> \<not> occurs (CHR ''V'') (flags env args)
            \<longrightarrow> level = default_level env)"
proof -
  let ?level = "level_after (default_level env) (flags env args)"
  have "filters (fst (main env args)) = (if proceeds env args then [?level] else [])"
  proof (cases "proceeds env args")
    case True
    then obtain pre c where m: "main env args =
        (pre @ Set_filter (log_level c) # fst (build_and_solve env c),
         snd (build_and_solve env c))"
      and pre: "filters pre = []"
      and lvl: "log_level c = level_after (default_level env) (flags env args)"
      by (rule proceeds_run)
    from m pre lvl build_and_solve_filters [of env c] True show ?thesis
      by (simp add: notions_append notions_Cons)
  next
    case False
    from not_proceeds_run [OF False] False show ?thesis
      by (simp add: Stderr_lines notions_Cons notions_Nil)
  qed
  then show ?thesis
    by (intro exI [of _ ?level])
      (auto simp: level_after_absent level_after_last_v level_after_last_V)
qed

theorem verbosity_last_wins_witness:
  "proceeds (sample_env False) [''{}'', ''-V'', ''-v'']
   \<and> flags (sample_env False) [''{}'', ''-V'', ''-v''] = [(CHR ''V'', [])] @ (CHR ''v'', []) # []
   \<and> filters (fst (main (sample_env False) [''{}'', ''-V'', ''-v''])) = [info]
   \<and> proceeds (sample_env False) [''-vV'', ''{}'']
   \<and> flags (sample_env False) [''-vV'', ''{}''] = [(CHR ''v'', [])] @ (CHR ''V'', []) # []
   \<and> filters (fst (main (sample_env False) [''-vV'', ''{}''])) = [trace]"
proof -
  let ?env = "sample_env False :: (string, string) env"
  let ?a = "[''{}'', ''-V'', ''-v'']"
  let ?b = "[''-vV'', ''{}'']"
  have pa: "proceeds ?env ?a" and pb: "proceeds ?env ?b"
    by (simp_all add: proceeds_def flags_simps stoul_simps)
  have fa: "flags ?env ?a = [(CHR ''V'', [])] @ (CHR ''v'', []) # []"
    and fb: "flags ?env ?b = [(CHR ''v'', [])] @ (CHR ''V'', []) # []"
    by (simp_all add: flags_simps)
  have n: "\<not> occurs (CHR ''v'') []" "\<not> occurs (CHR ''V'') []"
    by (simp_all add: occurs_def)
  from verbosity_last_wins [of ?env ?a] pa obtain la
    where la: "filters (fst (main ?env ?a)) = [la]"
      and "\<forall>es a es'. flags ?env ?a = es @ (CHR ''v'', a) # es'
            \<and> \<not> occurs (CHR ''v'') es' \<and> \<not> occurs (CHR ''V'') es' \<longrightarrow> la = info"
    by auto
  with fa n have a: "la = info"
    by blast
  from verbosity_last_wins [of ?env ?b] pb obtain lb
    where lb: "filters (fst (main ?env ?b)) = [lb]"
      and "\<forall>es a es'. flags ?env ?b = es @ (CHR ''V'', a) # es'
            \<and> \<not> occurs (CHR ''v'') es' \<and> \<not> occurs (CHR ''V'') es' \<longrightarrow> lb = trace"
    by auto
  with fb n have b: "lb = trace"
    by blast
  from pa pb fa fb la lb a b show ?thesis by simp
qed

subsection \<open>Which texts are converted\<close>



subsection \<open>The source of the problem text\<close>

lemma build_and_solve_payloads: "payloads (fst (build_and_solve env cl)) = [input cl]"
  by (cases rule: build_and_solve_cases [of env cl]) (auto simp: payloads_def)

text \<open>
  C6. In a run whose option loop ends without \<^verbatim>\<open>-h\<close> and whose numeric texts are
  converted, the texts handed to \<^verbatim>\<open>parse\<close> are: with a non-empty input file, what
  can be read from the file and nothing else, whatever else the argument vector holds;
  with an empty one, the first element of \<^verbatim>\<open>argv\<close> left after the options, as it is
  written (and \<^verbatim>\<open>parse\<close> is not called when there is none).
\<close>

theorem input_source:
  assumes "\<not> occurs (CHR ''h'') (flags env args)"
    and "stoul (last_value (CHR ''t'') ''4'' (flags env args)) = Inr n"
    and "stoul (last_value (CHR ''x'') ''1'' (flags env args)) = Inr m"
  shows "payloads (fst (main env args)) =
           (if last_value (CHR ''i'') [] (flags env args) \<noteq> []
            then [contents env (last_value (CHR ''i'') [] (flags env args))]
            else take 1 (positional env args))"
proof (cases "proceeds env args")
  case True
  then obtain pre c where m: "main env args =
      (pre @ Set_filter (log_level c) # fst (build_and_solve env c),
       snd (build_and_solve env c))"
    and pre: "payloads pre = []"
    and i: "input c =
           (if last_value (CHR ''i'') [] (flags env args) \<noteq> []
            then contents env (last_value (CHR ''i'') [] (flags env args))
            else hd (positional env args))"
    by (rule proceeds_run)
  have "payloads (fst (main env args)) = [input c]"
    using m pre build_and_solve_payloads [of env c]
    by (simp add: notions_append notions_Cons)
  with i True show ?thesis
    by (cases "positional env args") (auto simp: proceeds_def)
next
  case False
  with assms have none: "last_value (CHR ''i'') [] (flags env args) = []"
    "positional env args = []"
    by (auto simp: proceeds_def)
  from not_proceeds_run [OF False] assms none show ?thesis
    by (simp add: Stderr_lines notions_Cons notions_Nil)
qed

theorem input_source_witness:
  "\<not> occurs (CHR ''h'') (flags (sample_env False) [''text'', ''-i'', ''in.json''])
   \<and> stoul (last_value (CHR ''t'') ''4'' (flags (sample_env False) [''text'', ''-i'', ''in.json'']))
       = Inr 4
   \<and> stoul (last_value (CHR ''x'') ''1'' (flags (sample_env False) [''text'', ''-i'', ''in.json'']))
       = Inr 1
   \<and> positional (sample_env False) [''text'', ''-i'', ''in.json''] = [''text'']
   \<and> payloads (fst (main (sample_env False) [''text'', ''-i'', ''in.json''])) = [''{}'']
   \<and> payloads (fst (main (sample_env False) [''-g'', ''text'', ''more''])) = [''text'']"
proof -
  let ?env = "sample_env False :: (string, string) env"
  let ?args = "[''text'', ''-i'', ''in.json'']"
  let ?b = "[''-g'', ''text'', ''more'']"
  have h: "\<not> occurs (CHR ''h'') (flags ?env ?args)"
    by (simp add: flags_simps)
  have t: "stoul (last_value (CHR ''t'') ''4'' (flags ?env ?args)) = Inr 4"
    by (simp add: flags_simps stoul_simps)
  have x: "stoul (last_value (CHR ''x'') ''1'' (flags ?env ?args)) = Inr 1"
    by (simp add: flags_simps stoul_simps)
  have i: "last_value (CHR ''i'') [] (flags ?env ?args) = ''in.json''"
    by (simp add: flags_simps)
  have p: "positional ?env ?args = [''text'']"
    by (simp add: flags_simps)
  have hb: "\<not> occurs (CHR ''h'') (flags ?env ?b)"
    by (simp add: flags_simps)
  have tb: "stoul (last_value (CHR ''t'') ''4'' (flags ?env ?b)) = Inr 4"
    by (simp add: flags_simps stoul_simps)
  have xb: "stoul (last_value (CHR ''x'') ''1'' (flags ?env ?b)) = Inr 1"
    by (simp add: flags_simps stoul_simps)
  have ib: "last_value (CHR ''i'') [] (flags ?env ?b) = []"
    "positional ?env ?b = [''text'', ''more'']"
    by (simp_all add: flags_simps)
  from input_source [OF h t x] input_source [OF hb tb xb] h t x i p ib
  show ?thesis by (simp add: contents_def sample_env_def)
qed

subsection \<open>The ceiling of the exploration level\<close>

text \<open>
  C4, as amended. After a successful numeric validation the exploration level is at
  most 5: it is the smaller of 5 and the converted value reduced modulo \<open>2 ^ 32\<close>, since
  the converted \<^verbatim>\<open>unsigned long\<close> is stored in the \<^verbatim>\<open>unsigned\<close> field before it is
  compared. The thread count is the converted value reduced modulo \<open>2 ^ 32\<close>, with no
  ceiling.
\<close>

theorem exploration_level_ceiling:
  assumes "scanned env args = Some (cl, t, x)"
    and "validate cl t x = Inr cl1"
  shows "\<exists>n m. stoul t = Inr n \<and> stoul x = Inr m
           \<and> unat (exploration_level cl1) = min (unat m mod 2 ^ 32) 5
           \<and> unat (exploration_level cl1) \<le> 5
           \<and> unat (nb_threads cl1) = unat n mod 2 ^ 32"
proof -
  from assms(2) obtain n m where n: "stoul t = Inr n" and m: "stoul x = Inr m"
    and cl1: "cl1 = cl\<lparr>nb_threads := ucast n,
                        exploration_level := min (ucast m) (max_exploration_level cl)\<rparr>"
    by (rule validate_Inr)
  have five: "max_exploration_level cl = 5"
    by (rule scanned_fields(6) [OF assms(1)])
  have u: "unat (ucast w :: unsigned) = unat w mod 2 ^ 32" for w :: ulong
    by (simp add: unsigned_ucast_eq take_bit_eq_mod)
  have "unat (min (ucast m :: unsigned) 5) = min (unat (ucast m :: unsigned)) (unat (5 :: unsigned))"
    by (simp add: min_def word_le_nat_alt)
  then have e: "unat (exploration_level cl1) = min (unat m mod 2 ^ 32) 5"
    using cl1 five by (simp add: u)
  have "unat (nb_threads cl1) = unat n mod 2 ^ 32"
    using cl1 by (simp add: u)
  with n m e show ?thesis by simp
qed

theorem exploration_level_ceiling_witness:
  "scanned (sample_env False) [''-x'', ''9'', ''{}'', ''-t'', ''64''] =
     Some (cl_args_init ''car'' error, ''64'', ''9'')
   \<and> validate (cl_args_init ''car'' error) ''64'' ''9'' =
       Inr (cl_args_init ''car'' error \<lparr>nb_threads := 64, exploration_level := 5\<rparr>)
   \<and> stoul ''9'' = Inr 9
   \<and> unat (exploration_level
              (cl_args_init ''car'' error \<lparr>nb_threads := 64, exploration_level := 5\<rparr>)) \<le> 5"
proof -
  have s: "scanned (sample_env False) [''-x'', ''9'', ''{}'', ''-t'', ''64''] =
      Some (cl_args_init ''car'' error, ''64'', ''9'')"
    by (simp add: scanned_def flags_simps switch_opt_def)
  have v: "validate (cl_args_init ''car'' error) ''64'' ''9'' =
      Inr (cl_args_init ''car'' error \<lparr>nb_threads := 64, exploration_level := 5\<rparr>)"
    by (simp add: validate_def stoul_def isspace_def isdigit_def digits_val_def digit_val_def
          ULONG_MAX_def cl_args_init_def)
  have n: "stoul ''9'' = Inr 9"
    by (simp add: stoul_def isspace_def isdigit_def digits_val_def digit_val_def ULONG_MAX_def)
  from exploration_level_ceiling [OF s v] s v n
  show ?thesis by auto
qed

text \<open>
  The level is not the smaller of 5 and the converted value itself, and the thread
  count is not the converted value: \<^verbatim>\<open>-x 4294967299\<close> is converted to 4294967299 and
  \<^verbatim>\<open>solve\<close> is called with level 3; \<^verbatim>\<open>-t 4294967296\<close> gives 0 threads.
\<close>

theorem exploration_level_ceiling_counterexample:
  "stoul ''4294967299'' = Inr 4294967299
   \<and> main (sample_env False) [''-x'', ''4294967299'', ''-t'', ''4294967296'', ''{}''] =
       ([Set_filter error,
         Parse (cl_args_init ''car'' error
                  \<lparr>nb_threads := 0, exploration_level := 3, input := ''{}''\<rparr>),
         Solve ''{}'' 3 0,
         Write_to_json (Solution ''{}'') False []],
        Exit 0)"
  by (simp add: run_simps)

subsection \<open>The usage flags\<close>

text \<open>
  Once \<^verbatim>\<open>-h\<close> is reported by \<^verbatim>\<open>getopt\<close>, the run is the usage text and exit code
  0, whatever else the argument vector holds.
\<close>

lemma help_flag_usage:
  assumes "occurs (CHR ''h'') (flags env args)"
  shows "main env args =
           (map Stderr (getopt_lines env args) @ [Stdout (usage (version env) @ NL)], Exit 0)"
proof -
  from assms have "\<not> proceeds env args"
    by (simp add: proceeds_def)
  from not_proceeds_run [OF this] assms show ?thesis
    by simp
qed

text \<open>
  \<^verbatim>\<open>getopt\<close> reports \<^verbatim>\<open>-?\<close> as the option \<^verbatim>\<open>?\<close>, which is listed in the option
  string, but the \<^verbatim>\<open>switch\<close> has no case for it: the default case leaves the
  locals as they are and the loop goes on.
\<close>

lemma switch_opt_question_mark: "switch_opt (CHR ''?'') optarg s = Some s"
  by (cases s) (simp add: switch_opt_def)

text \<open>
  C5 at the argument vector \<^verbatim>\<open>-? {}\<close>: the flag \<^verbatim>\<open>-?\<close> is reported, without a line
  on standard error, and the run does not show the usage text. It validates the
  defaults, takes the input, calls \<^verbatim>\<open>parse\<close> and \<^verbatim>\<open>solve\<close> and writes the solution.
\<close>

theorem question_mark_flag_ignored:
  "flags (sample_env False) [''-?'', ''{}''] = [(CHR ''?'', [])]
   \<and> main (sample_env False) [''-?'', ''{}''] =
       ([Set_filter error,
         Parse (cl_args_init ''car'' error \<lparr>input := ''{}''\<rparr>),
         Solve ''{}'' 1 4,
         Write_to_json (Solution ''{}'') False []],
        Exit 0)"
  by (simp add: flags_simps run_simps)

subsection \<open>The texts that pass numeric validation\<close>

lemma isdigit_not_isspace: "isdigit c \<Longrightarrow> \<not> isspace c"
  by (auto simp: isdigit_def isspace_def)

lemma isdigit_not_sign: "isdigit c \<Longrightarrow> c \<noteq> CHR ''-'' \<and> c \<noteq> CHR ''+''"
  by (auto simp: isdigit_def)

lemma sign_not_isspace: "\<not> isspace (CHR ''-'')" "\<not> isspace (CHR ''+'')"
  by (simp_all add: isspace_def)

lemma dropWhile_prefix:
  assumes "list_all P ws" and "\<And>c r. ys = c # r \<Longrightarrow> \<not> P c"
  shows "dropWhile P (ws @ ys) = ys"
proof -
  have "dropWhile P ys = ys"
    using assms(2) by (cases ys) auto
  moreover have "dropWhile P (ws @ ys) = dropWhile P ys"
    using assms(1) by (induction ws) auto
  ultimately show ?thesis by simp
qed

lemma takeWhile_prefix:
  assumes "list_all P ds" and "\<And>c r. ys = c # r \<Longrightarrow> \<not> P c"
  shows "takeWhile P (ds @ ys) = ds"
proof -
  have "takeWhile P ys = []"
    using assms(2) by (cases ys) auto
  moreover have "takeWhile P (ds @ ys) = ds @ takeWhile P ys"
    using assms(1) by (induction ds) auto
  ultimately show ?thesis by simp
qed

lemma strip_sign_decomp:
  obtains sg where "sg = [] \<or> sg = ''+'' \<or> sg = ''-''"
    and "str = sg @ snd (strip_sign str)"
    and "fst (strip_sign str) = (sg = ''-'')"
proof (cases str)
  case Nil
  then show ?thesis by (intro that [of "[]"]) simp_all
next
  case (Cons c cs)
  show ?thesis
  proof (cases "c = CHR ''-''")
    case True
    with Cons show ?thesis by (intro that [of "''-''"]) simp_all
  next
    case False
    show ?thesis
    proof (cases "c = CHR ''+''")
      case True
      with Cons show ?thesis by (intro that [of "''+''"]) simp_all
    next
      case False
      with Cons \<open>c \<noteq> CHR ''-''\<close> show ?thesis by (intro that [of "[]"]) simp_all
    qed
  qed
qed

lemma stoul_convertible:
  assumes "convertible str"
  shows "\<exists>n. stoul str = Inr n"
proof -
  from assms obtain ws sg ds rest where str: "str = ws @ sg @ ds @ rest"
    and ws: "list_all isspace ws"
    and sg: "sg = [] \<or> sg = ''+'' \<or> sg = ''-''"
    and ds: "ds \<noteq> []" "list_all isdigit ds"
    and rest: "\<not> (\<exists>c r. rest = c # r \<and> isdigit c)"
    and range: "digits_val ds \<le> ULONG_MAX"
    unfolding convertible_def by blast
  from ds obtain d ds' where d: "ds = d # ds'" "isdigit d"
    by (cases ds) auto
  have "\<not> isspace c" if "sg @ ds @ rest = c # r" for c r
    using that sg d isdigit_not_isspace [of d] sign_not_isspace by auto
  with ws have drop: "dropWhile isspace str = sg @ ds @ rest"
    unfolding str by (intro dropWhile_prefix) auto
  have strip: "strip_sign (sg @ ds @ rest) = (sg = ''-'', ds @ rest)"
    using sg d isdigit_not_sign [of d] by auto
  have take: "takeWhile isdigit (ds @ rest) = ds"
    using ds(2) rest by (intro takeWhile_prefix) auto
  show ?thesis
    using ds(1) range by (simp add: stoul_def drop strip take)
qed

lemma convertible_stoul:
  assumes "stoul str = Inr n"
  shows "convertible str"
proof -
  let ?after = "dropWhile isspace str"
  let ?body = "snd (strip_sign ?after)"
  let ?ds = "takeWhile isdigit ?body"
  let ?rest = "dropWhile isdigit ?body"
  from assms have ds: "?ds \<noteq> []" and range: "digits_val ?ds \<le> ULONG_MAX"
    by (auto simp: stoul_def split_def Let_def split: if_splits)
  obtain sg where sg: "sg = [] \<or> sg = ''+'' \<or> sg = ''-''" and after: "?after = sg @ ?body"
    by (rule strip_sign_decomp [of ?after])
  have "str = takeWhile isspace str @ ?after"
    by simp
  also have "?after = sg @ ?ds @ ?rest"
    using after by simp
  finally have str: "str = takeWhile isspace str @ sg @ ?ds @ ?rest" .
  have ws: "list_all isspace (takeWhile isspace str)"
    by (auto simp: list_all_iff dest: set_takeWhileD)
  have digits: "list_all isdigit ?ds"
    by (auto simp: list_all_iff dest: set_takeWhileD)
  have rest: "\<not> (\<exists>c r. ?rest = c # r \<and> isdigit c)"
    by (auto simp: dropWhile_eq_Cons_conv)
  show ?thesis
    unfolding convertible_def using str ws sg ds digits rest range by blast
qed

text \<open>
  C2, as amended. Numeric validation fails exactly when one of the two texts is not
  convertible: after optional white space and an optional sign no digit follows (the
  empty text and a text such as \<^verbatim>\<open>abc\<close> are of this kind), or the digits denote more
  than \<open>2 ^ 64 - 1\<close>. A text with a minus sign and digits is convertible, and so is a
  text with other characters after the digits.
\<close>

theorem validation_fails_iff:
  "(\<exists>e. validate cl_args nb_threads_arg exploration_level_arg = Inl e)
     \<longleftrightarrow> \<not> convertible nb_threads_arg \<or> \<not> convertible exploration_level_arg"
proof -
  have "(\<exists>e. stoul str = Inl e) \<longleftrightarrow> \<not> convertible str" for str
    using stoul_convertible [of str] convertible_stoul [of str]
    by (cases "stoul str") auto
  then show ?thesis
    by (simp add: validate_Inl_iff)
qed

theorem validation_fails_iff_witness:
  "(\<exists>e. validate (cl_args_init ''car'' error) ''abc'' ''1'' = Inl e)
   \<and> \<not> convertible ''abc'' \<and> convertible ''1''
   \<and> convertible ''-1'' \<and> convertible ''12abc''
   \<and> \<not> convertible [] \<and> \<not> convertible ''18446744073709551616''"
proof -
  let ?c = "cl_args_init ''car'' error"
  have ok: "\<not> (\<exists>e. validate ?c ''1'' ''1'' = Inl e)"
    "\<not> (\<exists>e. validate ?c ''-1'' ''12abc'' = Inl e)"
    by (simp_all add: validate_def stoul_def isspace_def isdigit_def digits_val_def
          digit_val_def ULONG_MAX_def)
  have bad: "\<exists>e. validate ?c ''abc'' ''1'' = Inl e"
    "\<exists>e. validate ?c [] ''1'' = Inl e"
    "\<exists>e. validate ?c ''18446744073709551616'' ''1'' = Inl e"
    by (simp_all add: validate_def stoul_def isspace_def isdigit_def digits_val_def
          digit_val_def ULONG_MAX_def)
  from ok validation_fails_iff [of ?c "''1''" "''1''"]
    validation_fails_iff [of ?c "''-1''" "''12abc''"]
  have c: "convertible ''1''" "convertible ''-1''" "convertible ''12abc''"
    by simp_all
  from bad c(1) validation_fails_iff [of ?c "''abc''" "''1''"]
    validation_fails_iff [of ?c "[]" "''1''"]
    validation_fails_iff [of ?c "''18446744073709551616''" "''1''"]
  have n: "\<not> convertible ''abc''" "\<not> convertible []" "\<not> convertible ''18446744073709551616''"
    by simp_all
  from bad(1) c n show ?thesis by simp
qed

lemma ucast_ulong_minus_one: "(ucast (- 1 :: ulong) :: unsigned) = 4294967295"
proof -
  have "(- 1 :: ulong) = 18446744073709551615"
    by simp
  then have "(ucast (- 1 :: ulong) :: unsigned) = ucast (18446744073709551615 :: ulong)"
    by (simp only:)
  also have "\<dots> = 4294967295"
    by simp
  finally show ?thesis .
qed

text \<open>
  A negative text is not rejected: \<^verbatim>\<open>-t -1\<close> is converted to \<open>2 ^ 64 - 1\<close>, stored
  as \<open>2 ^ 32 - 1\<close>, and the run goes on to the solution.
\<close>

theorem negative_value_counterexample:
  "\<not> spec_valid_unsigned ''-1''
   \<and> stoul ''-1'' = Inr 18446744073709551615
   \<and> main (sample_env False) [''-t'', ''-1'', ''{}''] =
       ([Set_filter error,
         Parse (cl_args_init ''car'' error \<lparr>nb_threads := 4294967295, input := ''{}''\<rparr>),
         Solve ''{}'' 1 4294967295,
         Write_to_json (Solution ''{}'') False []],
        Exit 0)"
  by (simp add: spec_valid_unsigned_def isdigit_def run_simps ucast_ulong_minus_one)

end
